theory Spec2Isabelle
  imports Main "HOL-Library.Char_ord" "HOL-Library.List_Lexorder"
begin

section \<open>Timestamps (the part of Go's \<^verbatim>\<open>time\<close> package that the rotator calls)\<close>

text \<open>
  \<^verbatim>\<open>Rotator.Read\<close> obtains every timestamp from
  \<^verbatim>\<open>time.Parse("2006-01-02T15-04-05", s)\<close> on a string that matched
  \<^verbatim>\<open>\d{4}-\d{2}-\d{2}T\d{2}-\d{2}-\d{2}\<close>, so a timestamp is a UTC civil time
  whose fields are not negative and whose year has at most four digits.
\<close>

record Time =
  year :: int
  month :: int
  day :: int
  hour :: int
  minute :: int
  second :: int

definition isLeap :: "int \<Rightarrow> bool" where
  "isLeap y \<longleftrightarrow> y mod 4 = 0 \<and> (y mod 100 \<noteq> 0 \<or> y mod 400 = 0)"

definition daysBefore :: "int list" where
  "daysBefore = [0, 31, 59, 90, 120, 151, 181, 212, 243, 273, 304, 334, 365]"

definition daysIn :: "int \<Rightarrow> int \<Rightarrow> int" where
  "daysIn m y =
     (if m = 2 \<and> isLeap y then 29 else daysBefore ! nat m - daysBefore ! nat (m - 1))"

definition daysInYear :: "int \<Rightarrow> int" where
  "daysInYear y = (if isLeap y then 366 else 365)"

text \<open>\<^verbatim>\<open>time.Parse\<close> rejects a field that is out of range.\<close>

definition valid_time :: "Time \<Rightarrow> bool" where
  "valid_time t \<longleftrightarrow>
     0 \<le> year t \<and> 1 \<le> month t \<and> month t \<le> 12 \<and>
     1 \<le> day t \<and> day t \<le> daysIn (month t) (year t) \<and>
     0 \<le> hour t \<and> hour t < 24 \<and> 0 \<le> minute t \<and> minute t < 60 \<and>
     0 \<le> second t \<and> second t < 60"

text \<open>Day of the year, counted from 0 as \<^verbatim>\<open>absDate\<close> does.\<close>

definition yday :: "Time \<Rightarrow> int" where
  "yday t = daysBefore ! nat (month t - 1) + day t - 1
            + (if isLeap (year t) \<and> 2 < month t then 1 else 0)"

text \<open>Days from 1 January of year 1 (a Monday) to 1 January of the given year.\<close>

definition daysBeforeYear :: "int \<Rightarrow> int" where
  "daysBeforeYear y = (let p = y - 1 in 365 * p + p div 4 - p div 100 + p div 400)"

text \<open>\<^verbatim>\<open>Time.Weekday\<close>: Sunday is 0, Monday 1, ..., Saturday 6.\<close>

definition Weekday :: "Time \<Rightarrow> int" where
  "Weekday t = (1 + daysBeforeYear (year t) + yday t) mod 7"

text \<open>
  \<^verbatim>\<open>Time.ISOWeek\<close> moves to the Thursday of the week of \<open>t\<close> and returns the year
  that Thursday lies in together with the number of its week in that year.
\<close>

definition ISOWeek :: "Time \<Rightarrow> int \<times> int" where
  "ISOWeek t =
     (let d0 = 4 - Weekday t;
          d = (if d0 = 4 then - 3 else d0);
          yd = yday t + d;
          y = year t
      in if yd < 0 then (y - 1, (yd + daysInYear (y - 1)) div 7 + 1)
         else if daysInYear y \<le> yd then (y + 1, (yd - daysInYear y) div 7 + 1)
         else (y, yd div 7 + 1))"

text \<open>\<^verbatim>\<open>Time.After\<close> on UTC civil times.\<close>

definition After :: "Time \<Rightarrow> Time \<Rightarrow> bool" where
  "After t u \<longleftrightarrow>
     year u < year t \<or> (year u = year t \<and>
      (month u < month t \<or> (month u = month t \<and>
       (day u < day t \<or> (day u = day t \<and>
        (hour u < hour t \<or> (hour u = hour t \<and>
         (minute u < minute t \<or> (minute u = minute t \<and> second u < second t)))))))))"

subsection \<open>Formatting\<close>

definition digit :: "int \<Rightarrow> char" where
  "digit n = ''0123456789'' ! nat (n mod 10)"

text \<open>
  \<^verbatim>\<open>%d\<close> on a number that is not negative (the years and week numbers of parsed
  timestamps are not).
\<close>

function decimal :: "int \<Rightarrow> string" where
  "decimal n = (if n < 10 then [digit n] else decimal (n div 10) @ [digit n])"
  by pat_completeness auto
termination
  by (relation "measure nat") auto

text \<open>Zero padding to a width, as \<^verbatim>\<open>%02d\<close> and the layouts \<^verbatim>\<open>2006\<close>, \<^verbatim>\<open>01\<close>, \<^verbatim>\<open>02\<close> do.\<close>

definition padded :: "nat \<Rightarrow> int \<Rightarrow> string" where
  "padded w n = replicate (w - length (decimal n)) (CHR ''0'') @ decimal n"

text \<open>The four bucket keys computed at the head of the loop body of \<^verbatim>\<open>Rotate\<close>.\<close>

definition date_key :: "Time \<Rightarrow> string" where
  "date_key t = padded 4 (year t) @ ''-'' @ padded 2 (month t) @ ''-'' @ padded 2 (day t)"

definition week_key :: "Time \<Rightarrow> string" where
  "week_key t = (let weekNumber = snd (ISOWeek t)
                 in decimal (year t) @ ''-W'' @ padded 2 weekNumber)"

definition month_key :: "Time \<Rightarrow> string" where
  "month_key t = padded 4 (year t) @ ''-'' @ padded 2 (month t)"

definition year_key :: "Time \<Rightarrow> string" where
  "year_key t = padded 4 (year t)"


section \<open>The rotator's data\<close>

text \<open>
  \<^verbatim>\<open>Tags\<close> is a list value: \<^verbatim>\<open>Read\<close> leaves every tag slice \<^verbatim>\<open>nil\<close>, a copy of a
  file that was stored keeps the length of its own tag slice, and nothing is appended to a
  copy after it was stored (the last section shows that a copy which the loop reads back
  passes no test).
\<close>

record BackupFile =
  Name :: string
  Time :: Time
  Tags :: "string list"

text \<open>The zero value of the struct, found in the unused part of an array.\<close>

definition zero_file :: BackupFile where
  "zero_file = \<lparr>Name = [], Time = \<lparr>year = 1, month = 1, day = 1, hour = 0, minute = 0, second = 0\<rparr>,
                 Tags = []\<rparr>"

text \<open>
  \<^verbatim>\<open>r.FoundFiles\<close> is a slice of an array that \<^verbatim>\<open>Read\<close> allocated: \<open>backing\<close> is that
  array (its length is the capacity of the slice) and \<open>found_len\<close> the length of the slice.
  \<^verbatim>\<open>r.SelectedFiles = r.FoundFiles[:r.Keep]\<close> makes \<^verbatim>\<open>r.SelectedFiles\<close> a slice of the
  same array, from index 0, with the same capacity: \<open>Shares n\<close> is that slice with length
  \<open>n\<close>. Once \<^verbatim>\<open>append\<close> has had to allocate, the slice has an array of its own
  (\<open>Own\<close>), which nothing else refers to.
\<close>

datatype selection = Shares nat | Own "BackupFile list"

record Rotator =
  Dry :: bool
  Keep :: int
  KeepDays :: int
  KeepWeeks :: int
  KeepMonths :: int
  KeepYears :: int
  SourceDir :: string
  DestinationDir :: string
  backing :: "BackupFile list"
  found_len :: nat
  selected :: selection

definition FoundFiles :: "Rotator \<Rightarrow> BackupFile list" where
  "FoundFiles r = take (found_len r) (backing r)"

definition SelectedFiles :: "Rotator \<Rightarrow> BackupFile list" where
  "SelectedFiles r = (case selected r of Shares n \<Rightarrow> take n (backing r) | Own xs \<Rightarrow> xs)"

text \<open>
  \<^verbatim>\<open>r.SelectedFiles = append(r.SelectedFiles, backup)\<close>: while the slice has spare capacity
  the element is written into the shared array, at the index that is the slice's length.
\<close>

definition append_selected :: "BackupFile \<Rightarrow> Rotator \<Rightarrow> Rotator" where
  "append_selected b r =
     (case selected r of
        Shares n \<Rightarrow>
          if n < length (backing r)
          then r\<lparr>backing := (backing r)[n := b], selected := Shares (Suc n)\<rparr>
          else r\<lparr>selected := Own (take n (backing r) @ [b])\<rparr>
      | Own xs \<Rightarrow> r\<lparr>selected := Own (xs @ [b])\<rparr>)"

section \<open>The generational pass\<close>

datatype tier = Daily | Weekly | Monthly | Yearly

fun tag :: "tier \<Rightarrow> string" where
  "tag Daily = ''daily''"
| "tag Weekly = ''weekly''"
| "tag Monthly = ''monthly''"
| "tag Yearly = ''yearly''"

fun bucket_key :: "tier \<Rightarrow> Time \<Rightarrow> string" where
  "bucket_key Daily t = date_key t"
| "bucket_key Weekly t = week_key t"
| "bucket_key Monthly t = month_key t"
| "bucket_key Yearly t = year_key t"

fun quota :: "Rotator \<Rightarrow> tier \<Rightarrow> int" where
  "quota r Daily = KeepDays r"
| "quota r Weekly = KeepWeeks r"
| "quota r Monthly = KeepMonths r"
| "quota r Yearly = KeepYears r"

text \<open>
  The maps \<^verbatim>\<open>daily\<close>, \<^verbatim>\<open>weekly\<close>, \<^verbatim>\<open>monthly\<close> and \<^verbatim>\<open>yearly\<close>, in order of
  insertion. A key is only inserted when it is absent, so \<^verbatim>\<open>len\<close> is the length.
\<close>

type_synonym bucket = "(string \<times> BackupFile) list"

record pass =
  rot :: Rotator
  buckets :: "tier \<Rightarrow> bucket"

text \<open>
  One of the four \<^verbatim>\<open>if\<close> statements of the loop body, on the loop variable
  \<^verbatim>\<open>backup\<close> and the state.
\<close>

definition qualifies :: "tier \<Rightarrow> BackupFile \<Rightarrow> pass \<Rightarrow> bool" where
  "qualifies T backup p \<longleftrightarrow>
     map_of (buckets p T) (bucket_key T (Time backup)) = None \<and>
     int (length (buckets p T)) < quota (rot p) T"

definition tier_step :: "tier \<Rightarrow> BackupFile \<times> pass \<Rightarrow> BackupFile \<times> pass" where
  "tier_step T bp =
     (let backup = fst bp; p = snd bp
      in if qualifies T backup p
         then let backup' = backup\<lparr>Tags := Tags backup @ [tag T]\<rparr>
              in (backup',
                  p\<lparr>buckets := (buckets p)(T := buckets p T @ [(bucket_key T (Time backup), backup')]),
                    rot := append_selected backup' (rot p)\<rparr>)
         else (backup, p))"

text \<open>
  The loop body at index \<open>j\<close> of \<^verbatim>\<open>r.FoundFiles\<close>. The \<^verbatim>\<open>range\<close> clause fixes the
  bounds once and reads each element from the array when its turn comes.
\<close>

definition body :: "nat \<Rightarrow> pass \<Rightarrow> pass" where
  "body j p =
     snd (tier_step Yearly (tier_step Monthly (tier_step Weekly (tier_step Daily
            (backing (rot p) ! j, p)))))"

definition generational :: "Rotator \<Rightarrow> pass" where
  "generational r =
     fold body [nat (Keep r) ..< found_len r] \<lparr>rot = r, buckets = (\<lambda>_. [])\<rparr>"

text \<open>
  Lines 129 to 132: the head slice (a run-time panic unless \<open>0 \<le> Keep \<le> cap\<close>) and the
  loop that tags the head in the shared array.
\<close>

datatype panic = SliceBoundsOutOfRange | IndexOutOfRange

definition tag_keep :: "nat \<Rightarrow> Rotator \<Rightarrow> Rotator" where
  "tag_keep i r =
     r\<lparr>backing := (backing r)[i := (backing r ! i)\<lparr>Tags := Tags (backing r ! i) @ [''keep'']\<rparr>]\<rparr>"

definition keep_head :: "Rotator \<Rightarrow> panic + Rotator" where
  "keep_head r =
     (if Keep r < 0 \<or> int (length (backing r)) < Keep r then Inl SliceBoundsOutOfRange
      else Inr (fold tag_keep [0 ..< min (nat (Keep r)) (found_len r)]
                  (r\<lparr>selected := Shares (nat (Keep r))\<rparr>)))"

text \<open>
  Lines 129 to 170: \<^verbatim>\<open>r.FoundFiles[r.Keep:]\<close> panics when \<open>Keep\<close> exceeds the length.
\<close>

definition classify :: "Rotator \<Rightarrow> panic + pass" where
  "classify r =
     (case keep_head r of
        Inl e \<Rightarrow> Inl e
      | Inr r1 \<Rightarrow>
          if int (found_len r1) < Keep r1 then Inl SliceBoundsOutOfRange
          else Inr (generational r1))"

text \<open>What \<^verbatim>\<open>Read\<close> leaves in the rotator for a list of files and a capacity.\<close>

definition found :: "Rotator \<Rightarrow> nat \<Rightarrow> BackupFile list \<Rightarrow> Rotator" where
  "found r c fs =
     r\<lparr>backing := fs @ replicate (c - length fs) zero_file, found_len := length fs\<rparr>"


section \<open>The file system, as far as the rotator uses it\<close>

text \<open>
  A file system is a list of paths with what is stored there, and three lists that say where
  the operating system refuses an operation: directories that cannot be listed, paths that
  cannot be removed and paths where no link can be created.

  A directory is not the string that names it. The paths in these lists are resolved paths,
  and the operating system resolves the directory part of every path that a call gives it:
  repeated slashes and the components \<^verbatim>\<open>.\<close> and \<^verbatim>\<open>..\<close> are resolved from the spelling, and
  what only the state of the system decides (a symbolic link to a directory, the working
  directory of a relative path, a mount, case folding) is the table \<open>aliases\<close>, from a
  cleaned spelling to the directory it stands for.
\<close>

datatype node = File | Symlink string

record filesystem =
  entries :: "(string \<times> node) list"
  aliases :: "(string \<times> string) list"
  unreadable :: "string list"
  undeletable :: "string list"
  unlinkable :: "string list"

datatype os_error = ReadDirError string | RemoveError string | SymlinkError string

fun split_slash :: "string \<Rightarrow> string list" where
  "split_slash [] = [[]]"
| "split_slash (c # cs) =
     (if c = CHR ''/'' then [] # split_slash cs
      else (case split_slash cs of [] \<Rightarrow> [[c]] | x # xs \<Rightarrow> (c # x) # xs))"

text \<open>
  The components of a path that remain, innermost first in \<open>st\<close>: empty components and
  \<^verbatim>\<open>.\<close> are skipped, \<^verbatim>\<open>..\<close> gives up the component before it (at the root of an absolute
  path it stays at the root, at the start of a relative path it is kept).
\<close>

fun walk :: "bool \<Rightarrow> string list \<Rightarrow> string list \<Rightarrow> string list" where
  "walk a st [] = rev st"
| "walk a st (c # cs) =
     (if c = [] \<or> c = ''.'' then walk a st cs
      else if c = ''..''
      then (case st of
              [] \<Rightarrow> if a then walk a [] cs else walk a [''..''] cs
            | t # ts \<Rightarrow> if t = ''..'' then walk a (''..'' # st) cs else walk a ts cs)
      else walk a (c # st) cs)"

text \<open>The cleaned spelling of a directory path; it ends in a slash.\<close>

definition clean_dir :: "string \<Rightarrow> string" where
  "clean_dir d =
     (let a = (d \<noteq> [] \<and> hd d = CHR ''/'');
          cs = walk a [] (split_slash d)
      in if a then ''/'' @ concat (map (\<lambda>c. c @ ''/'') cs)
         else if cs = [] then ''./''
         else concat (map (\<lambda>c. c @ ''/'') cs))"

text \<open>The directory that a directory path stands for.\<close>

definition resolve :: "filesystem \<Rightarrow> string \<Rightarrow> string" where
  "resolve fs d =
     (case map_of (aliases fs) (clean_dir d) of
        Some t \<Rightarrow> clean_dir t
      | None \<Rightarrow> clean_dir d)"

text \<open>
  A path is its directory part, up to the last slash, and the name after it; the resolved
  path keeps the name.
\<close>

definition dir_part :: "string \<Rightarrow> string" where
  "dir_part p = rev (dropWhile (\<lambda>c. c \<noteq> CHR ''/'') (rev p))"

definition last_part :: "string \<Rightarrow> string" where
  "last_part p = rev (takeWhile (\<lambda>c. c \<noteq> CHR ''/'') (rev p))"

definition canon :: "filesystem \<Rightarrow> string \<Rightarrow> string" where
  "canon fs p = resolve fs (dir_part p) @ last_part p"

definition after_prefix :: "string \<Rightarrow> string \<Rightarrow> string option" where
  "after_prefix d p = (if take (length d) p = d then Some (drop (length d) p) else None)"

definition is_entry_name :: "string \<Rightarrow> bool" where
  "is_entry_name n \<longleftrightarrow> n \<noteq> [] \<and> CHR ''/'' \<notin> set n"

text \<open>The names of the entries of the directory that \<open>d\<close> stands for.\<close>

definition dir_names :: "filesystem \<Rightarrow> string \<Rightarrow> string list" where
  "dir_names fs d =
     filter is_entry_name
       (List.map_filter (\<lambda>e. after_prefix (resolve fs d) (fst e)) (entries fs))"

text \<open>\<^verbatim>\<open>os.ReadDir\<close> returns the entries of a directory sorted by file name.\<close>

definition os_ReadDir :: "filesystem \<Rightarrow> string \<Rightarrow> os_error + string list" where
  "os_ReadDir fs d =
     (if resolve fs d \<in> set (unreadable fs) then Inl (ReadDirError d)
      else Inr (sort (remdups (dir_names fs d))))"

definition os_Remove :: "filesystem \<Rightarrow> string \<Rightarrow> os_error + filesystem" where
  "os_Remove fs p =
     (let q = canon fs p
      in if map_of (entries fs) q = None \<or> q \<in> set (undeletable fs) then Inl (RemoveError p)
         else Inr (fs\<lparr>entries := filter (\<lambda>e. fst e \<noteq> q) (entries fs)\<rparr>))"

definition os_Symlink :: "filesystem \<Rightarrow> string \<Rightarrow> string \<Rightarrow> os_error + filesystem" where
  "os_Symlink fs target p =
     (let q = canon fs p
      in if map_of (entries fs) q \<noteq> None \<or> q \<in> set (unlinkable fs) then Inl (SymlinkError p)
         else Inr (fs\<lparr>entries := entries fs @ [(q, Symlink target)]\<rparr>))"

text \<open>\<^verbatim>\<open>os.IsNotExist\<close> of the error of \<^verbatim>\<open>os.Lstat\<close>.\<close>

definition not_exist :: "filesystem \<Rightarrow> string \<Rightarrow> bool" where
  "not_exist fs p \<longleftrightarrow> map_of (entries fs) (canon fs p) = None"

section \<open>\<^verbatim>\<open>clear\<close>, \<^verbatim>\<open>link\<close>, \<^verbatim>\<open>remove\<close> and \<^verbatim>\<open>Rotate\<close>\<close>

text \<open>What the program prints.\<close>

datatype message =
    DryRunEnabled
  | ErrorParsing string
  | DryRunRemove string
  | ErrorLinking os_error
  | ErrorRemoving os_error
  | LinkedFile string "string list"

fun clear_loop :: "string \<Rightarrow> string list \<Rightarrow> filesystem \<Rightarrow> filesystem \<times> os_error option" where
  "clear_loop d [] fs = (fs, None)"
| "clear_loop d (n # ns) fs =
     (case os_Remove fs (d @ n) of
        Inl e \<Rightarrow> (fs, Some e)
      | Inr fs' \<Rightarrow> clear_loop d ns fs')"

definition clear :: "Rotator \<Rightarrow> filesystem \<Rightarrow> filesystem \<times> os_error option" where
  "clear r fs =
     (case os_ReadDir fs (DestinationDir r) of
        Inl e \<Rightarrow> (fs, Some e)
      | Inr files \<Rightarrow> clear_loop (DestinationDir r) files fs)"

fun link_tags ::
  "Rotator \<Rightarrow> BackupFile \<Rightarrow> string list \<Rightarrow> filesystem \<Rightarrow> filesystem \<times> os_error option" where
  "link_tags r result [] fs = (fs, None)"
| "link_tags r result (t # ts) fs =
     (let srcPath = SourceDir r @ Name result;
          destPath = DestinationDir r @ t @ ''-'' @ Name result
      in if not_exist fs destPath
         then (case os_Symlink fs srcPath destPath of
                 Inl e \<Rightarrow> (fs, Some e)
               | Inr fs' \<Rightarrow> link_tags r result ts fs')
         else link_tags r result ts fs)"

fun link_files ::
  "Rotator \<Rightarrow> BackupFile list \<Rightarrow> filesystem \<Rightarrow> filesystem \<times> os_error option" where
  "link_files r [] fs = (fs, None)"
| "link_files r (result # rest) fs =
     (case link_tags r result (Tags result) fs of
        (fs', Some e) \<Rightarrow> (fs', Some e)
      | (fs', None) \<Rightarrow> link_files r rest fs')"

definition link :: "Rotator \<Rightarrow> filesystem \<Rightarrow> filesystem \<times> os_error option" where
  "link r fs = link_files r (SelectedFiles r) fs"

text \<open>
  The loop of \<^verbatim>\<open>remove\<close> over \<^verbatim>\<open>r.FoundFiles\<close>; \<open>names\<close> are the keys of
  \<^verbatim>\<open>resultMap\<close>. It returns at the first deletion that fails.
\<close>

fun remove_loop ::
  "Rotator \<Rightarrow> string list \<Rightarrow> BackupFile list \<Rightarrow> filesystem \<Rightarrow>
   filesystem \<times> message list \<times> os_error option" where
  "remove_loop r names [] fs = (fs, [], None)"
| "remove_loop r names (backup # rest) fs =
     (if Name backup \<notin> set names
      then if \<not> Dry r
           then (case os_Remove fs (SourceDir r @ Name backup) of
                   Inl e \<Rightarrow> (fs, [], Some e)
                 | Inr fs' \<Rightarrow> remove_loop r names rest fs')
           else (case remove_loop r names rest fs of
                   (fs', out, e) \<Rightarrow> (fs', DryRunRemove (SourceDir r @ Name backup) # out, e))
      else remove_loop r names rest fs)"

definition remove :: "Rotator \<Rightarrow> filesystem \<Rightarrow> filesystem \<times> message list \<times> os_error option" where
  "remove r fs = remove_loop r (map Name (SelectedFiles r)) (FoundFiles r) fs"

text \<open>
  \<^verbatim>\<open>Rotate\<close> drops the result of \<^verbatim>\<open>clear\<close>, and prints the errors of \<^verbatim>\<open>link\<close> and
  \<^verbatim>\<open>remove\<close>. A panic ends the program where it happens, after \<^verbatim>\<open>clear\<close>.
\<close>

definition report :: "(os_error \<Rightarrow> message) \<Rightarrow> os_error option \<Rightarrow> message list" where
  "report f e = (case e of None \<Rightarrow> [] | Some x \<Rightarrow> [f x])"

definition Rotate :: "Rotator \<Rightarrow> filesystem \<Rightarrow> (panic + Rotator) \<times> filesystem \<times> message list" where
  "Rotate r fs =
     (let fs1 = fst (clear r fs)
      in case classify r of
           Inl e \<Rightarrow> (Inl e, fs1, [])
         | Inr p \<Rightarrow>
             (case link (rot p) fs1 of
                (fs2, le) \<Rightarrow>
                  (case remove (rot p) fs2 of
                     (fs3, out, re) \<Rightarrow>
                       (Inr (rot p), fs3,
                        report ErrorLinking le @ out @ report ErrorRemoving re))))"


section \<open>\<^verbatim>\<open>Read\<close>\<close>

text \<open>
  The regular expression \<^verbatim>\<open>(\d{4}-\d{2}-\d{2}T\d{2}-\d{2}-\d{2})\.sql\.gz\<close> has one shape of
  fixed length, so its leftmost match is the first position where that shape fits.
\<close>

datatype pat = Digit | Lit char

definition pattern :: "pat list" where
  "pattern =
     [Digit, Digit, Digit, Digit, Lit (CHR ''-''), Digit, Digit, Lit (CHR ''-''), Digit, Digit,
      Lit (CHR ''T''), Digit, Digit, Lit (CHR ''-''), Digit, Digit, Lit (CHR ''-''), Digit, Digit]
     @ map Lit ''.sql.gz''"

definition is_digit :: "char \<Rightarrow> bool" where
  "is_digit c \<longleftrightarrow> c \<in> set ''0123456789''"

fun match_here :: "pat list \<Rightarrow> string \<Rightarrow> bool" where
  "match_here [] s = True"
| "match_here (p # ps) [] = False"
| "match_here (Digit # ps) (c # cs) = (is_digit c \<and> match_here ps cs)"
| "match_here (Lit x # ps) (c # cs) = (c = x \<and> match_here ps cs)"

text \<open>The captured group when \<^verbatim>\<open>len(matches) == 2\<close>.\<close>

fun FindStringSubmatch :: "string \<Rightarrow> string option" where
  "FindStringSubmatch [] = None"
| "FindStringSubmatch (c # cs) =
     (if match_here pattern (c # cs) then Some (take 19 (c # cs)) else FindStringSubmatch cs)"

definition number :: "string \<Rightarrow> int" where
  "number s = foldl (\<lambda>a c. 10 * a + (of_char c - 48)) 0 s"

text \<open>\<^verbatim>\<open>time.Parse("2006-01-02T15-04-05", s)\<close> on a captured group.\<close>

definition Parse :: "string \<Rightarrow> Time option" where
  "Parse s =
     (let t = \<lparr>year = number (take 4 s), month = number (take 2 (drop 5 s)),
               day = number (take 2 (drop 8 s)), hour = number (take 2 (drop 11 s)),
               minute = number (take 2 (drop 14 s)), second = number (take 2 (drop 17 s))\<rparr>
      in if valid_time t then Some t else None)"

fun scan :: "string list \<Rightarrow> BackupFile list \<times> message list" where
  "scan [] = ([], [])"
| "scan (n # ns) =
     (case FindStringSubmatch n of
        None \<Rightarrow> scan ns
      | Some m \<Rightarrow>
          (case Parse m of
             None \<Rightarrow> (case scan ns of (fs, out) \<Rightarrow> (fs, ErrorParsing m # out))
           | Some t \<Rightarrow>
               (case scan ns of (fs, out) \<Rightarrow> (\<lparr>Name = n, Time = t, Tags = []\<rparr> # fs, out))))"

text \<open>
  \<^verbatim>\<open>sort.Slice\<close> with \<^verbatim>\<open>After\<close> as the order: newest first. Go does not fix the order of
  files with equal timestamps; this insertion sort keeps them as they were.
\<close>

fun insert_newest :: "BackupFile \<Rightarrow> BackupFile list \<Rightarrow> BackupFile list" where
  "insert_newest b [] = [b]"
| "insert_newest b (x # xs) =
     (if After (Time x) (Time b) then x # insert_newest b xs else b # x # xs)"

definition newest_first :: "BackupFile list \<Rightarrow> BackupFile list" where
  "newest_first fs = foldr insert_newest fs []"

text \<open>
  The capacity that repeated \<^verbatim>\<open>append\<close> leaves behind is the runtime's choice: \<open>capacity\<close>
  gives it for each length, and is never taken to be less than the length.
\<close>

definition Read ::
  "(nat \<Rightarrow> nat) \<Rightarrow> Rotator \<Rightarrow> filesystem \<Rightarrow> (os_error + Rotator) \<times> message list" where
  "Read capacity r fs =
     (case os_ReadDir fs (SourceDir r) of
        Inl e \<Rightarrow> (Inl e, [])
      | Inr files \<Rightarrow>
          (case scan files of
             (bs, out) \<Rightarrow> (Inr (found r (capacity (length bs)) (newest_first bs)), out)))"

section \<open>The action of \<^verbatim>\<open>main\<close>\<close>

record flags =
  keep :: int
  keep_days :: int
  keep_weeks :: int
  keep_months :: int
  keep_years :: int
  dryCount :: nat
  source :: string
  destination :: string

text \<open>\<^verbatim>\<open>srcDir[len(srcDir)-1]\<close> panics on the empty string.\<close>

definition with_slash :: "string \<Rightarrow> panic + string" where
  "with_slash d =
     (if d = [] then Inl IndexOutOfRange
      else if last d \<noteq> CHR ''/'' then Inr (d @ ''/'') else Inr d)"

definition new_rotator :: "flags \<Rightarrow> string \<Rightarrow> string \<Rightarrow> Rotator" where
  "new_rotator c srcDir dstDir =
     \<lparr>Dry = (0 < dryCount c), Keep = keep c, KeepDays = keep_days c, KeepWeeks = keep_weeks c,
      KeepMonths = keep_months c, KeepYears = keep_years c, SourceDir = srcDir,
      DestinationDir = dstDir, backing = [], found_len = 0, selected = Own []\<rparr>"

text \<open>
  The result is the \<^verbatim>\<open>error\<close> that the action returns (\<open>None\<close> is \<^verbatim>\<open>nil\<close>), or a panic.
  After the test \<^verbatim>\<open>err != nil\<close> has returned, \<^verbatim>\<open>err\<close> is \<^verbatim>\<open>nil\<close>.
\<close>

definition Action ::
  "(nat \<Rightarrow> nat) \<Rightarrow> flags \<Rightarrow> filesystem \<Rightarrow> (panic + os_error option) \<times> filesystem \<times> message list" where
  "Action capacity c fs =
     (case with_slash (source c) of
        Inl e \<Rightarrow> (Inl e, fs, [])
      | Inr srcDir \<Rightarrow>
     (case with_slash (destination c) of
        Inl e \<Rightarrow> (Inl e, fs, [])
      | Inr dstDir \<Rightarrow>
     (let out0 = (if 0 < dryCount c then [DryRunEnabled] else [])
      in case Read capacity (new_rotator c srcDir dstDir) fs of
           (Inl err, out1) \<Rightarrow> (Inr (Some err), fs, out0 @ out1)
         | (Inr rotator, out1) \<Rightarrow>
             if length (FoundFiles rotator) = 0 then (Inr None, fs, out0 @ out1)
             else (case Rotate rotator fs of
                     (Inl e, fs', out2) \<Rightarrow> (Inl e, fs', out0 @ out1 @ out2)
                   | (Inr r', fs', out2) \<Rightarrow>
                       (Inr None, fs',
                        out0 @ out1 @ out2
                        @ map (\<lambda>file. LinkedFile (Name file) (Tags file)) (SelectedFiles r'))))))"

text \<open>
  \<^verbatim>\<open>main\<close> exits with status 1 when the action returned an error and with 0 otherwise; the Go
  runtime exits with status 2 after a panic.
\<close>

definition exit_status :: "panic + os_error option \<Rightarrow> nat" where
  "exit_status x = (case x of Inl _ \<Rightarrow> 2 | Inr None \<Rightarrow> 0 | Inr (Some _) \<Rightarrow> 1)"


section \<open>Notions that the properties are stated with\<close>

text \<open>The bucket keys of a tier that a list of files represents with that tier's tag.\<close>

definition represented :: "tier \<Rightarrow> BackupFile list \<Rightarrow> string list" where
  "represented T bs =
     remdups (map (\<lambda>b. bucket_key T (Time b)) (filter (\<lambda>b. tag T \<in> set (Tags b)) bs))"

text \<open>The tiers whose test a file passes, in the order of the loop body.\<close>

definition earned :: "BackupFile \<Rightarrow> pass \<Rightarrow> tier list" where
  "earned backup p = filter (\<lambda>T. qualifies T backup p) [Daily, Weekly, Monthly, Yearly]"

fun with_quota :: "tier \<Rightarrow> int \<Rightarrow> Rotator \<Rightarrow> Rotator" where
  "with_quota Daily q r = r\<lparr>KeepDays := q\<rparr>"
| "with_quota Weekly q r = r\<lparr>KeepWeeks := q\<rparr>"
| "with_quota Monthly q r = r\<lparr>KeepMonths := q\<rparr>"
| "with_quota Yearly q r = r\<lparr>KeepYears := q\<rparr>"

text \<open>What an observer of a finished classification sees: both slices and the four maps.\<close>

definition outcome ::
  "panic + pass \<Rightarrow> panic + BackupFile list \<times> BackupFile list \<times> bucket list" where
  "outcome x =
     map_sum id
       (\<lambda>p. (SelectedFiles (rot p), FoundFiles (rot p),
             map (buckets p) [Daily, Weekly, Monthly, Yearly])) x"

definition ends_with_slash :: "string \<Rightarrow> bool" where
  "ends_with_slash d \<longleftrightarrow> d \<noteq> [] \<and> last d = CHR ''/''"

section \<open>Concrete inputs\<close>

definition backup_on :: "string \<Rightarrow> int \<Rightarrow> int \<Rightarrow> int \<Rightarrow> int \<Rightarrow> BackupFile" where
  "backup_on n y m d h =
     \<lparr>Name = n, Time = \<lparr>year = y, month = m, day = d, hour = h, minute = 0, second = 0\<rparr>,
      Tags = []\<rparr>"

definition dec_30_2024 :: Time where
  "dec_30_2024 = \<lparr>year = 2024, month = 12, day = 30, hour = 0, minute = 0, second = 0\<rparr>"

definition jan_01_2024 :: Time where
  "jan_01_2024 = \<lparr>year = 2024, month = 1, day = 1, hour = 0, minute = 0, second = 0\<rparr>"

definition jan_01_2025 :: Time where
  "jan_01_2025 = \<lparr>year = 2025, month = 1, day = 1, hour = 0, minute = 0, second = 0\<rparr>"

definition file_A :: BackupFile where
  "file_A = backup_on ''2024-01-03T12-00-00.sql.gz'' 2024 1 3 12"

definition file_B :: BackupFile where
  "file_B = backup_on ''2024-01-02T12-00-00.sql.gz'' 2024 1 2 12"

definition file_C :: BackupFile where
  "file_C = backup_on ''2024-01-02T06-00-00.sql.gz'' 2024 1 2 6"

definition policy :: "bool \<Rightarrow> int \<Rightarrow> int \<Rightarrow> int \<Rightarrow> int \<Rightarrow> int \<Rightarrow> Rotator" where
  "policy dry k d w m y =
     \<lparr>Dry = dry, Keep = k, KeepDays = d, KeepWeeks = w, KeepMonths = m, KeepYears = y,
      SourceDir = ''/backup/'', DestinationDir = ''/links/'', backing = [], found_len = 0,
      selected = Own []\<rparr>"

definition disk :: filesystem where
  "disk =
     \<lparr>entries = [(''/backup/2024-01-03T12-00-00.sql.gz'', File),
                 (''/backup/2024-01-02T12-00-00.sql.gz'', File),
                 (''/backup/2024-01-02T06-00-00.sql.gz'', File),
                 (''/links/keep-2023-12-31T12-00-00.sql.gz'',
                  Symlink ''/backup/2023-12-31T12-00-00.sql.gz'')],
      aliases = [], unreadable = [], undeletable = [], unlinkable = []\<rparr>"

definition single :: filesystem where
  "single = disk\<lparr>entries := [(''/backup/2024-01-03T12-00-00.sql.gz'', File)]\<rparr>"

definition no_backups :: filesystem where
  "no_backups = disk\<lparr>entries := [(''/backup/notes.txt'', File)]\<rparr>"


definition unlistable :: filesystem where
  "unlistable = disk\<lparr>unreadable := [''/links/'']\<rparr>"


definition respelled_directory :: Rotator where
  "respelled_directory = (policy True 1 0 0 0 0)\<lparr>DestinationDir := ''/backup//''\<rparr>"

text \<open>The default values of the flags, with the two directories given.\<close>

definition default_flags :: flags where
  "default_flags =
     \<lparr>keep = 5, keep_days = 7, keep_weeks = 5, keep_months = 6, keep_years = 2, dryCount = 0,
      source = ''/backup'', destination = ''/links''\<rparr>"


section \<open>Notions used in the proofs\<close>

text \<open>A pass whose policy has the quota of one tier replaced by 0.\<close>

definition requota :: "tier \<Rightarrow> pass \<Rightarrow> pass" where
  "requota T p = p\<lparr>rot := with_quota T 0 (rot p)\<rparr>"

text \<open>Every file value that the rotator holds, in the array or in the selection.\<close>

definition all_files :: "Rotator \<Rightarrow> BackupFile set" where
  "all_files r = set (backing r) \<union> set (SelectedFiles r)"

text \<open>A pass whose rotator has the dry-run flag set to \<open>d\<close>.\<close>

definition with_dry :: "bool \<Rightarrow> pass \<Rightarrow> pass" where
  "with_dry d p = p\<lparr>rot := (rot p)\<lparr>Dry := d\<rparr>\<rparr>"


section \<open>Slices and the head\<close>

lemma append_selected_fields [simp]:
  "Dry (append_selected b r) = Dry r"
  "Keep (append_selected b r) = Keep r"
  "KeepDays (append_selected b r) = KeepDays r"
  "KeepWeeks (append_selected b r) = KeepWeeks r"
  "KeepMonths (append_selected b r) = KeepMonths r"
  "KeepYears (append_selected b r) = KeepYears r"
  "SourceDir (append_selected b r) = SourceDir r"
  "DestinationDir (append_selected b r) = DestinationDir r"
  "found_len (append_selected b r) = found_len r"
  "length (backing (append_selected b r)) = length (backing r)"
  by (simp_all add: append_selected_def split: selection.splits)

lemma quota_append_selected [simp]: "quota (append_selected b r) T = quota r T"
  by (cases T) simp_all

lemma SelectedFiles_append_selected [simp]:
  "SelectedFiles (append_selected b r) = SelectedFiles r @ [b]"
  by (auto simp: append_selected_def SelectedFiles_def take_Suc_conv_app_nth
      split: selection.splits)

lemma set_backing_append_selected:
  "set (backing (append_selected b r)) \<subseteq> insert b (set (backing r))"
  by (auto simp: append_selected_def split: selection.splits dest: set_update_subset_insert [THEN subsetD])

lemma tag_keep_fields [simp]:
  "Dry (tag_keep i r) = Dry r"
  "Keep (tag_keep i r) = Keep r"
  "KeepDays (tag_keep i r) = KeepDays r"
  "KeepWeeks (tag_keep i r) = KeepWeeks r"
  "KeepMonths (tag_keep i r) = KeepMonths r"
  "KeepYears (tag_keep i r) = KeepYears r"
  "SourceDir (tag_keep i r) = SourceDir r"
  "DestinationDir (tag_keep i r) = DestinationDir r"
  "found_len (tag_keep i r) = found_len r"
  "selected (tag_keep i r) = selected r"
  "length (backing (tag_keep i r)) = length (backing r)"
  by (simp_all add: tag_keep_def)

lemma fold_tag_keep_fields [simp]:
  "Dry (fold tag_keep is r) = Dry r"
  "Keep (fold tag_keep is r) = Keep r"
  "KeepDays (fold tag_keep is r) = KeepDays r"
  "KeepWeeks (fold tag_keep is r) = KeepWeeks r"
  "KeepMonths (fold tag_keep is r) = KeepMonths r"
  "KeepYears (fold tag_keep is r) = KeepYears r"
  "SourceDir (fold tag_keep is r) = SourceDir r"
  "DestinationDir (fold tag_keep is r) = DestinationDir r"
  "found_len (fold tag_keep is r) = found_len r"
  "selected (fold tag_keep is r) = selected r"
  "length (backing (fold tag_keep is r)) = length (backing r)"
  by (induction "is" arbitrary: r; simp)+

lemma classify_beyond_length:
  "int (found_len r) < Keep r \<Longrightarrow> classify r = Inl SliceBoundsOutOfRange"
  by (simp add: classify_def keep_head_def)

lemma listing_single: "os_ReadDir single ''/backup/'' = Inr [''2024-01-03T12-00-00.sql.gz'']"
  by code_simp

lemma scan_single: "scan [''2024-01-03T12-00-00.sql.gz''] = ([file_A], [])"
  by code_simp

lemma Read_single:
  "Read capacity (new_rotator default_flags ''/backup/'' ''/links/'') single =
     (Inr (found (new_rotator default_flags ''/backup/'' ''/links/'') (capacity 1) [file_A]), [])"
  by (simp add: Read_def new_rotator_def listing_single scan_single newest_first_def
      del: scan.simps)

lemma listing_no_backups: "os_ReadDir no_backups ''/backup/'' = Inr [''notes.txt'']"
  by code_simp

lemma scan_no_backups: "scan [''notes.txt''] = ([], [])"
  by code_simp

text \<open>
  C1. For every newest-first file list and every policy, \<^verbatim>\<open>Rotate\<close> selects the \<open>keep\<close>
  most recent files and tags each of them \<open>keep\<close>, without a crash even when \<open>keep\<close> exceeds
  the number of files. The code tags with a clamped index but slices without one: with the
  default \<open>keep = 5\<close> and a single backup in the source directory, whatever capacity the
  slice has, the program panics (exit status 2), after the destination has been cleared and
  before anything is linked or pruned.
\<close>

theorem keep_beyond_length_panics:
  "fst (Action capacity default_flags single) = Inl SliceBoundsOutOfRange \<and>
   exit_status (fst (Action capacity default_flags single)) = 2"
proof -
  let ?r = "found (new_rotator default_flags ''/backup/'' ''/links/'') (capacity 1) [file_A]"
  have "int (found_len ?r) < Keep ?r"
    by (simp add: found_def new_rotator_def default_flags_def)
  then have "classify ?r = Inl SliceBoundsOutOfRange"
    by (rule classify_beyond_length)
  then obtain fs' out where "Rotate ?r single = (Inl SliceBoundsOutOfRange, fs', out)"
    by (simp add: Rotate_def)
  moreover have "FoundFiles ?r \<noteq> []"
    by (simp add: FoundFiles_def found_def)
  ultimately have "fst (Action capacity default_flags single) = Inl SliceBoundsOutOfRange"
    by (simp add: Action_def with_slash_def default_flags_def Read_single [unfolded default_flags_def])
  then show ?thesis by (simp add: exit_status_def)
qed


text \<open>
  C5. When no file matches the naming pattern, the run aborts with a non-zero outcome. The
  code stops before \<^verbatim>\<open>Rotate\<close>, but returns the \<^verbatim>\<open>err\<close> that it has just found to be
  \<^verbatim>\<open>nil\<close>: the action succeeds and the exit status is 0.
\<close>

theorem no_backups_exit_zero:
  "Action capacity default_flags no_backups = (Inr None, no_backups, []) \<and>
   exit_status (fst (Action capacity default_flags no_backups)) = 0"
  by (simp add: Action_def default_flags_def with_slash_def Read_def new_rotator_def
      listing_no_backups scan_no_backups FoundFiles_def found_def newest_first_def
      exit_status_def del: scan.simps)

lemma ISOWeek_known_dates:
  "ISOWeek \<lparr>year = 2021, month = 1, day = 3, hour = 0, minute = 0, second = 0\<rparr> = (2020, 53)"
  "ISOWeek \<lparr>year = 2020, month = 12, day = 31, hour = 23, minute = 59, second = 59\<rparr> = (2020, 53)"
  "ISOWeek \<lparr>year = 2018, month = 12, day = 31, hour = 0, minute = 0, second = 0\<rparr> = (2019, 1)"
  "ISOWeek \<lparr>year = 2026, month = 10, day = 31, hour = 0, minute = 0, second = 0\<rparr> = (2026, 44)"
  "Weekday \<lparr>year = 2026, month = 10, day = 31, hour = 0, minute = 0, second = 0\<rparr> = 6"
  by code_simp+

text \<open>
  C3. The week key combines the ISO-8601 week number with the ISO week-year, so that two
  timestamps of one ISO week on both sides of a year boundary get the same key. The code
  drops the year that \<^verbatim>\<open>ISOWeek\<close> returns and prints \<^verbatim>\<open>Time.Year\<close> instead: 30 December
  2024 and 1 January 2025 both lie in week 1 of ISO year 2025 and get different keys, and
  30 December 2024 shares its key with 1 January 2024, which lies 52 weeks earlier.
\<close>

theorem week_key_takes_calendar_year:
  "Parse ''2024-12-30T00-00-00'' = Some dec_30_2024 \<and>
   Parse ''2025-01-01T00-00-00'' = Some jan_01_2025 \<and>
   Parse ''2024-01-01T00-00-00'' = Some jan_01_2024 \<and>
   ISOWeek dec_30_2024 = (2025, 1) \<and> ISOWeek jan_01_2025 = (2025, 1) \<and>
   ISOWeek jan_01_2024 = (2024, 1) \<and>
   week_key dec_30_2024 = ''2024-W01'' \<and> week_key jan_01_2025 = ''2025-W01'' \<and>
   week_key jan_01_2024 = ''2024-W01''"
  by code_simp

text \<open>
  C8. The representative of a bucket is always its most recent member. In the code the
  appends to \<^verbatim>\<open>r.SelectedFiles\<close> write into the array of \<^verbatim>\<open>r.FoundFiles\<close> while the loop
  is still reading it. With \<open>keep = 0\<close>, \<open>keepDays = 2\<close>, \<open>keepWeeks = 1\<close> and the files A
  (3 January, 12:00), B (2 January, 12:00), C (2 January, 06:00), the second append for A
  overwrites B before the loop reaches it, and C, the older file of 2 January, becomes the
  representative of that day; B is neither selected nor left in \<^verbatim>\<open>r.FoundFiles\<close>.
\<close>

theorem overwritten_file_loses_its_bucket:
  "outcome (classify (found (policy False 0 2 1 0 0) 4 [file_A, file_B, file_C])) =
     Inr ([file_A\<lparr>Tags := [''daily'']\<rparr>, file_A\<lparr>Tags := [''daily'', ''weekly'']\<rparr>,
           file_C\<lparr>Tags := [''daily'']\<rparr>],
          [file_A\<lparr>Tags := [''daily'']\<rparr>, file_A\<lparr>Tags := [''daily'', ''weekly'']\<rparr>,
           file_C\<lparr>Tags := [''daily'']\<rparr>],
          [[(''2024-01-03'', file_A\<lparr>Tags := [''daily'']\<rparr>),
            (''2024-01-02'', file_C\<lparr>Tags := [''daily'']\<rparr>)],
           [(''2024-W01'', file_A\<lparr>Tags := [''daily'', ''weekly'']\<rparr>)], [], []]) \<and>
   date_key (Time file_B) = date_key (Time file_C) \<and> After (Time file_B) (Time file_C)"
  by code_simp


section \<open>One turn of the loop\<close>

lemma qualifies_cong:
  "buckets p' T = buckets p T \<Longrightarrow> quota (rot p') T = quota (rot p) T \<Longrightarrow> Time b' = Time b \<Longrightarrow>
   qualifies T b' p' = qualifies T b p"
  by (simp add: qualifies_def)

lemma tier_step_fst:
  "fst (tier_step T bp) =
     (fst bp)\<lparr>Tags := Tags (fst bp) @ (if qualifies T (fst bp) (snd bp) then [tag T] else [])\<rparr>"
  by (simp add: tier_step_def Let_def)

lemma tier_step_Time [simp]: "Time (fst (tier_step T bp)) = Time (fst bp)"
  by (simp add: tier_step_fst)

lemma tier_step_Name [simp]: "Name (fst (tier_step T bp)) = Name (fst bp)"
  by (simp add: tier_step_fst)

lemma tier_step_quota [simp]: "quota (rot (snd (tier_step T bp))) T' = quota (rot (snd bp)) T'"
  by (simp add: tier_step_def Let_def)

lemma tier_step_buckets_other [simp]:
  "T' \<noteq> T \<Longrightarrow> buckets (snd (tier_step T bp)) T' = buckets (snd bp) T'"
  by (simp add: tier_step_def Let_def)

lemma tier_step_qualifies_other [simp]:
  "T' \<noteq> T \<Longrightarrow>
   qualifies T' (fst (tier_step T bp)) (snd (tier_step T bp)) = qualifies T' (fst bp) (snd bp)"
  by (rule qualifies_cong) simp_all

lemma tier_step_SelectedFiles:
  "SelectedFiles (rot (snd (tier_step T bp))) =
     SelectedFiles (rot (snd bp))
     @ (if qualifies T (fst bp) (snd bp) then [fst (tier_step T bp)] else [])"
  by (simp add: tier_step_def Let_def)


text \<open>
  C2. The selection contains each file name at most once; a file that qualifies for several
  tiers is a single entry carrying the union of its tags. In the code the selection is a
  slice, and every tier that a file qualifies for appends a copy of it: with
  \<open>keepDays = keepWeeks = 1\<close> a single file is selected twice, once tagged \<open>daily\<close> and once
  tagged \<open>daily\<close> and \<open>weekly\<close>.
\<close>

theorem selection_repeats_a_name:
  "outcome (classify (found (policy False 0 1 1 0 0) 1 [file_A])) =
     Inr ([file_A\<lparr>Tags := [''daily'']\<rparr>, file_A\<lparr>Tags := [''daily'', ''weekly'']\<rparr>],
          [file_A\<lparr>Tags := [''daily'']\<rparr>],
          [[(''2024-01-03'', file_A\<lparr>Tags := [''daily'']\<rparr>)],
           [(''2024-W01'', file_A\<lparr>Tags := [''daily'', ''weekly'']\<rparr>)], [], []]) \<and>
   \<not> distinct (map Name [file_A\<lparr>Tags := [''daily'']\<rparr>, file_A\<lparr>Tags := [''daily'', ''weekly'']\<rparr>])"
  by code_simp


text \<open>
  C2, as the code has it: one turn of the loop appends to the selection one entry for each
  tier that the file qualifies for, in the order daily, weekly, monthly, yearly; each entry is
  the file with the tags it had and the tags of the tiers earned up to that one, so that the
  last entry carries the union of the tags.
\<close>

theorem body_appends_once_per_tier:
  "SelectedFiles (rot (body j p)) =
     SelectedFiles (rot p) @
     map (\<lambda>i. (backing (rot p) ! j)
                 \<lparr>Tags := Tags (backing (rot p) ! j)
                           @ map tag (take (Suc i) (earned (backing (rot p) ! j) p))\<rparr>)
       [0 ..< length (earned (backing (rot p) ! j) p)]"
proof -
  define b where "b = backing (rot p) ! j"
  define s1 where "s1 = tier_step Daily (b, p)"
  define s2 where "s2 = tier_step Weekly s1"
  define s3 where "s3 = tier_step Monthly s2"
  define s4 where "s4 = tier_step Yearly s3"
  have q1: "qualifies Weekly (fst s1) (snd s1) = qualifies Weekly b p"
    "qualifies Monthly (fst s1) (snd s1) = qualifies Monthly b p"
    "qualifies Yearly (fst s1) (snd s1) = qualifies Yearly b p"
    by (simp_all add: s1_def)
  have q2: "qualifies Monthly (fst s2) (snd s2) = qualifies Monthly b p"
    "qualifies Yearly (fst s2) (snd s2) = qualifies Yearly b p"
    by (simp_all add: s2_def q1)
  have q3: "qualifies Yearly (fst s3) (snd s3) = qualifies Yearly b p"
    by (simp add: s3_def q2)
  have f1: "fst s1 = b\<lparr>Tags := Tags b @ (if qualifies Daily b p then [tag Daily] else [])\<rparr>"
    by (simp add: s1_def tier_step_fst)
  have f2: "fst s2 = (fst s1)\<lparr>Tags := Tags (fst s1) @ (if qualifies Weekly b p then [tag Weekly] else [])\<rparr>"
    by (simp add: s2_def tier_step_fst q1)
  have f3: "fst s3 = (fst s2)\<lparr>Tags := Tags (fst s2) @ (if qualifies Monthly b p then [tag Monthly] else [])\<rparr>"
    by (simp add: s3_def tier_step_fst q2)
  have f4: "fst s4 = (fst s3)\<lparr>Tags := Tags (fst s3) @ (if qualifies Yearly b p then [tag Yearly] else [])\<rparr>"
    by (simp add: s4_def tier_step_fst q3)
  have "SelectedFiles (rot (snd s4)) =
          SelectedFiles (rot p)
          @ (if qualifies Daily b p then [fst s1] else [])
          @ (if qualifies Weekly b p then [fst s2] else [])
          @ (if qualifies Monthly b p then [fst s3] else [])
          @ (if qualifies Yearly b p then [fst s4] else [])"
    unfolding s4_def s3_def s2_def s1_def
    by (simp add: tier_step_SelectedFiles)
  also have "\<dots> = SelectedFiles (rot p) @
        map (\<lambda>i. b\<lparr>Tags := Tags b @ map tag (take (Suc i) (earned b p))\<rparr>)
          [0 ..< length (earned b p)]"
    by (cases "qualifies Daily b p"; cases "qualifies Weekly b p";
        cases "qualifies Monthly b p"; cases "qualifies Yearly b p")
       (simp_all add: f1 f2 f3 f4 earned_def upt_rec)
  finally show ?thesis
    by (simp add: body_def b_def s4_def s3_def s2_def s1_def)
qed



section \<open>A quota that is not positive\<close>

lemma with_quota_fields [simp]:
  "Dry (with_quota T q r) = Dry r"
  "Keep (with_quota T q r) = Keep r"
  "SourceDir (with_quota T q r) = SourceDir r"
  "DestinationDir (with_quota T q r) = DestinationDir r"
  "backing (with_quota T q r) = backing r"
  "found_len (with_quota T q r) = found_len r"
  "selected (with_quota T q r) = selected r"
  by (cases T; simp)+

lemma quota_with_quota [simp]:
  "quota (with_quota T q r) T' = (if T' = T then q else quota r T')"
  by (cases T; cases T'; simp)

lemma SelectedFiles_with_quota [simp]: "SelectedFiles (with_quota T q r) = SelectedFiles r"
  by (simp add: SelectedFiles_def split: selection.splits)

lemma FoundFiles_with_quota [simp]: "FoundFiles (with_quota T q r) = FoundFiles r"
  by (simp add: FoundFiles_def)

lemma append_selected_with_quota:
  "append_selected b (with_quota T q r) = with_quota T q (append_selected b r)"
  by (cases T) (simp_all add: append_selected_def split: selection.splits)

lemma tag_keep_with_quota: "tag_keep i (with_quota T q r) = with_quota T q (tag_keep i r)"
  by (cases T) (simp_all add: tag_keep_def)

lemma fold_tag_keep_with_quota:
  "fold tag_keep is (with_quota T q r) = with_quota T q (fold tag_keep is r)"
  by (induction "is" arbitrary: r) (simp_all add: tag_keep_with_quota)

lemma with_quota_selected_update:
  "(with_quota T q r)\<lparr>selected := x\<rparr> = with_quota T q (r\<lparr>selected := x\<rparr>)"
  by (cases T) simp_all

lemma requota_simps [simp]:
  "buckets (requota T p) = buckets p"
  "rot (requota T p) = with_quota T 0 (rot p)"
  by (simp_all add: requota_def)

lemma qualifies_requota:
  "quota (rot p) T \<le> 0 \<Longrightarrow> qualifies T' b (requota T p) = qualifies T' b p"
  by (auto simp: qualifies_def)

lemma tier_step_requota:
  assumes "quota (rot p) T \<le> 0"
  shows "tier_step T' (b, requota T p) =
           (fst (tier_step T' (b, p)), requota T (snd (tier_step T' (b, p))))"
  using assms
  by (simp add: tier_step_def Let_def qualifies_requota append_selected_with_quota)

lemma body_quota [simp]: "quota (rot (body j p)) T = quota (rot p) T"
  by (simp add: body_def)

lemma body_requota:
  assumes "quota (rot p) T \<le> 0"
  shows "body j (requota T p) = requota T (body j p)"
proof -
  define b where "b = backing (rot p) ! j"
  define s1 where "s1 = tier_step Daily (b, p)"
  define s2 where "s2 = tier_step Weekly s1"
  define s3 where "s3 = tier_step Monthly s2"
  have 1: "tier_step Daily (b, requota T p) = (fst s1, requota T (snd s1))"
    using assms by (simp add: s1_def tier_step_requota)
  have "quota (rot (snd s1)) T \<le> 0"
    using assms by (simp add: s1_def)
  then have 2: "tier_step Weekly (fst s1, requota T (snd s1)) = (fst s2, requota T (snd s2))"
    using tier_step_requota [of "snd s1" T Weekly "fst s1"] by (simp add: s2_def)
  have "quota (rot (snd s2)) T \<le> 0"
    using assms by (simp add: s2_def s1_def)
  then have 3: "tier_step Monthly (fst s2, requota T (snd s2)) = (fst s3, requota T (snd s3))"
    using tier_step_requota [of "snd s2" T Monthly "fst s2"] by (simp add: s3_def)
  have "quota (rot (snd s3)) T \<le> 0"
    using assms by (simp add: s3_def s2_def s1_def)
  then have 4: "tier_step Yearly (fst s3, requota T (snd s3)) =
      (fst (tier_step Yearly s3), requota T (snd (tier_step Yearly s3)))"
    using tier_step_requota [of "snd s3" T Yearly "fst s3"] by simp
  show ?thesis
    by (simp add: body_def b_def [symmetric] 1 2 3 4)
       (simp add: s3_def s2_def s1_def)
qed

lemma fold_body_quota [simp]: "quota (rot (fold body js p)) T = quota (rot p) T"
  by (induction js arbitrary: p) simp_all

lemma fold_body_requota:
  "quota (rot p) T \<le> 0 \<Longrightarrow> fold body js (requota T p) = requota T (fold body js p)"
  by (induction js arbitrary: p) (simp_all add: body_requota)

lemma generational_with_quota:
  assumes "quota r T \<le> 0"
  shows "generational (with_quota T 0 r) = requota T (generational r)"
  using assms fold_body_requota [of "\<lparr>rot = r, buckets = (\<lambda>_. [])\<rparr>" T "[nat (Keep r) ..< found_len r]"]
  by (simp add: generational_def requota_def)

lemma keep_head_with_quota:
  "keep_head (with_quota T q r) = map_sum id (with_quota T q) (keep_head r)"
  by (simp add: keep_head_def fold_tag_keep_with_quota with_quota_selected_update)

lemma keep_head_quota: "keep_head r = Inr r1 \<Longrightarrow> quota r1 T = quota r T"
  by (cases T) (auto simp: keep_head_def split: if_splits)

lemma classify_with_quota:
  assumes "quota r T \<le> 0"
  shows "classify (with_quota T 0 r) = map_sum id (requota T) (classify r)"
proof (cases "keep_head r")
  case (Inl e)
  then show ?thesis by (simp add: classify_def keep_head_with_quota)
next
  case (Inr r1)
  with assms have "quota r1 T \<le> 0" by (simp add: keep_head_quota)
  with Inr show ?thesis
    by (simp add: classify_def keep_head_with_quota generational_with_quota)
qed

lemma outcome_with_quota:
  "quota r T \<le> 0 \<Longrightarrow> outcome (classify (with_quota T 0 r)) = outcome (classify r)"
  by (cases "classify r") (simp_all add: classify_with_quota outcome_def)


section \<open>Invariants of the pass\<close>

lemma all_files_append_selected: "all_files (append_selected b r) \<subseteq> insert b (all_files r)"
  using set_backing_append_selected [of b r] by (auto simp: all_files_def)

lemma qualifies_quota_positive: "qualifies T b p \<Longrightarrow> 0 < quota (rot p) T"
  by (simp add: qualifies_def)

lemma tier_step_length_backing [simp]:
  "length (backing (rot (snd (tier_step T bp)))) = length (backing (rot (snd bp)))"
  by (simp add: tier_step_def Let_def)

lemma body_length_backing [simp]: "length (backing (rot (body j p))) = length (backing (rot p))"
  by (simp add: body_def)

lemma tier_step_invariant:
  fixes Q :: "(tier \<Rightarrow> bucket) \<Rightarrow> BackupFile \<Rightarrow> bool"
  assumes mono: "\<And>bk T' k v x. Q bk x \<Longrightarrow> Q (bk(T' := bk T' @ [(k, v)])) x"
    and step: "\<And>bk x. 0 < quota (rot (snd bp)) T \<Longrightarrow> Q bk x \<Longrightarrow>
                 Q (bk(T := bk T @ [(bucket_key T (Time x), x\<lparr>Tags := Tags x @ [tag T]\<rparr>)]))
                   (x\<lparr>Tags := Tags x @ [tag T]\<rparr>)"
    and files: "\<forall>x\<in>all_files (rot (snd bp)). Q (buckets (snd bp)) x"
    and b: "Q (buckets (snd bp)) (fst bp)"
  shows "(\<forall>x\<in>all_files (rot (snd (tier_step T bp))). Q (buckets (snd (tier_step T bp))) x) \<and>
         Q (buckets (snd (tier_step T bp))) (fst (tier_step T bp))"
proof (cases "qualifies T (fst bp) (snd bp)")
  case False
  with files b show ?thesis by (simp add: tier_step_def)
next
  case True
  obtain b0 p where bp: "bp = (b0, p)" by (cases bp)
  define b' where "b' = b0\<lparr>Tags := Tags b0 @ [tag T]\<rparr>"
  define bk' where "bk' = (buckets p)(T := buckets p T @ [(bucket_key T (Time b0), b')])"
  from True have ts: "tier_step T bp =
      (b', p\<lparr>buckets := bk', rot := append_selected b' (rot p)\<rparr>)"
    by (simp add: tier_step_def Let_def bp b'_def bk'_def)
  from True have "0 < quota (rot (snd bp)) T" by (rule qualifies_quota_positive)
  with b have new: "Q bk' b'"
    unfolding bk'_def b'_def using step [of "buckets p" b0] by (simp add: bp)
  have old: "Q bk' x" if "x \<in> all_files (rot p)" for x
    unfolding bk'_def using files that by (auto simp: bp intro: mono)
  have "Q bk' x" if "x \<in> all_files (append_selected b' (rot p))" for x
    using all_files_append_selected [of b' "rot p"] that new old by auto
  with new show ?thesis by (simp add: ts)
qed

lemma body_invariant:
  fixes Q :: "(tier \<Rightarrow> bucket) \<Rightarrow> BackupFile \<Rightarrow> bool"
  assumes mono: "\<And>bk T' k v x. Q bk x \<Longrightarrow> Q (bk(T' := bk T' @ [(k, v)])) x"
    and step: "\<And>bk x T. 0 < quota (rot p) T \<Longrightarrow> Q bk x \<Longrightarrow>
                 Q (bk(T := bk T @ [(bucket_key T (Time x), x\<lparr>Tags := Tags x @ [tag T]\<rparr>)]))
                   (x\<lparr>Tags := Tags x @ [tag T]\<rparr>)"
    and files: "\<forall>x\<in>all_files (rot p). Q (buckets p) x"
    and j: "j < length (backing (rot p))"
  shows "\<forall>x\<in>all_files (rot (body j p)). Q (buckets (body j p)) x"
proof -
  define s0 where "s0 = (backing (rot p) ! j, p)"
  define s1 where "s1 = tier_step Daily s0"
  define s2 where "s2 = tier_step Weekly s1"
  define s3 where "s3 = tier_step Monthly s2"
  define s4 where "s4 = tier_step Yearly s3"
  let ?I = "\<lambda>s. (\<forall>x\<in>all_files (rot (snd s)). Q (buckets (snd s)) x) \<and> Q (buckets (snd s)) (fst s)"
  have q: "quota (rot (snd s0)) T = quota (rot p) T" "quota (rot (snd s1)) T = quota (rot p) T"
    "quota (rot (snd s2)) T = quota (rot p) T" "quota (rot (snd s3)) T = quota (rot p) T" for T
    by (simp_all add: s0_def s1_def s2_def s3_def)
  from j have "backing (rot p) ! j \<in> all_files (rot p)"
    by (simp add: all_files_def)
  with files have i0: "?I s0" by (simp add: s0_def)
  have st: "0 < quota (rot (snd s)) T \<Longrightarrow> Q bk x \<Longrightarrow>
      Q (bk(T := bk T @ [(bucket_key T (Time x), x\<lparr>Tags := Tags x @ [tag T]\<rparr>)]))
        (x\<lparr>Tags := Tags x @ [tag T]\<rparr>)"
    if "s \<in> {s0, s1, s2, s3}" for s T bk x
    using that step [of T bk x] q [of T] by auto
  have i1: "?I s1" unfolding s1_def
    by (rule tier_step_invariant [where Q = Q, OF mono st]) (use i0 in simp_all)
  have i2: "?I s2" unfolding s2_def
    by (rule tier_step_invariant [where Q = Q, OF mono st]) (use i1 in simp_all)
  have i3: "?I s3" unfolding s3_def
    by (rule tier_step_invariant [where Q = Q, OF mono st]) (use i2 in simp_all)
  have "?I s4" unfolding s4_def
    by (rule tier_step_invariant [where Q = Q, OF mono st]) (use i3 in simp_all)
  then show ?thesis
    by (simp add: body_def s4_def s3_def s2_def s1_def s0_def)
qed

lemma fold_body_length_backing [simp]:
  "length (backing (rot (fold body js p))) = length (backing (rot p))"
  by (induction js arbitrary: p) simp_all

lemma fold_body_invariant:
  fixes Q :: "(tier \<Rightarrow> bucket) \<Rightarrow> BackupFile \<Rightarrow> bool"
  assumes mono: "\<And>bk T' k v x. Q bk x \<Longrightarrow> Q (bk(T' := bk T' @ [(k, v)])) x"
    and step: "\<And>bk x T. 0 < quota (rot p) T \<Longrightarrow> Q bk x \<Longrightarrow>
                 Q (bk(T := bk T @ [(bucket_key T (Time x), x\<lparr>Tags := Tags x @ [tag T]\<rparr>)]))
                   (x\<lparr>Tags := Tags x @ [tag T]\<rparr>)"
    and files: "\<forall>x\<in>all_files (rot p). Q (buckets p) x"
    and js: "\<forall>j\<in>set js. j < length (backing (rot p))"
  shows "\<forall>x\<in>all_files (rot (fold body js p)). Q (buckets (fold body js p)) x"
  using step files js
proof (induction js arbitrary: p)
  case Nil
  then show ?case by simp
next
  case (Cons j js)
  have "\<forall>x\<in>all_files (rot (body j p)). Q (buckets (body j p)) x"
    by (rule body_invariant [where Q = Q, OF mono Cons.prems(1)]) (use Cons.prems in simp_all)
  moreover have "\<forall>i\<in>set js. i < length (backing (rot (body j p)))"
    using Cons.prems by simp
  moreover have "Q (bk(T := bk T @ [(bucket_key T (Time x), x\<lparr>Tags := Tags x @ [tag T]\<rparr>)]))
        (x\<lparr>Tags := Tags x @ [tag T]\<rparr>)"
    if "0 < quota (rot (body j p)) T" "Q bk x" for T bk x
    using that by (intro Cons.prems(1)) simp_all
  ultimately have "\<forall>x\<in>all_files (rot (fold body js (body j p))).
      Q (buckets (fold body js (body j p))) x"
    by (intro Cons.IH) 
  then show ?case by simp
qed



section \<open>The whole classification\<close>

lemma tag_inject [simp]: "tag T = tag T' \<longleftrightarrow> T = T'"
  by (cases T; cases T'; simp)

lemma tag_not_keep [simp]: "tag T \<noteq> ''keep''"
  by (cases T; simp)

lemma fold_tag_keep_invariant:
  assumes keep: "\<And>x. P x \<Longrightarrow> P (x\<lparr>Tags := Tags x @ [''keep'']\<rparr>)"
  shows "\<forall>x\<in>set (backing r). P x \<Longrightarrow> \<forall>i\<in>set is. i < length (backing r) \<Longrightarrow>
         \<forall>x\<in>set (backing (fold tag_keep is r)). P x"
proof (induction "is" arbitrary: r)
  case Nil
  then show ?case by simp
next
  case (Cons i "is")
  have "\<forall>x\<in>set (backing (tag_keep i r)). P x"
  proof
    fix x assume "x \<in> set (backing (tag_keep i r))"
    then have "x = (backing r ! i)\<lparr>Tags := Tags (backing r ! i) @ [''keep'']\<rparr> \<or> x \<in> set (backing r)"
      using set_update_subset_insert [of "backing r" i] by (auto simp: tag_keep_def)
    with Cons.prems show "P x" by (auto intro: keep)
  qed
  with Cons.prems show ?case by (simp add: Cons.IH)
qed

lemma keep_head_invariant:
  assumes "keep_head r = Inr r1" and "found_len r \<le> length (backing r)"
    and "\<forall>x\<in>set (backing r). P x"
    and keep: "\<And>x. P x \<Longrightarrow> P (x\<lparr>Tags := Tags x @ [''keep'']\<rparr>)"
  shows "\<forall>x\<in>all_files r1. P x"
proof -
  let ?is = "[0 ..< min (nat (Keep r)) (found_len r)]"
  let ?r0 = "r\<lparr>selected := Shares (nat (Keep r))\<rparr>"
  from assms(1) have r1: "r1 = fold tag_keep ?is ?r0"
    by (simp add: keep_head_def split: if_splits)
  have "\<forall>x\<in>set (backing (fold tag_keep ?is ?r0)). P x"
    using assms(2,3) by (intro fold_tag_keep_invariant keep) auto
  moreover have "all_files r1 \<subseteq> set (backing r1)"
    by (auto simp: all_files_def SelectedFiles_def r1 dest: in_set_takeD)
  ultimately show ?thesis by (auto simp: r1)
qed

lemma keep_head_shape:
  "keep_head r = Inr r1 \<Longrightarrow>
   found_len r1 = found_len r \<and> length (backing r1) = length (backing r) \<and> Keep r1 = Keep r \<and>
   SourceDir r1 = SourceDir r \<and> DestinationDir r1 = DestinationDir r \<and> Dry r1 = Dry r"
  by (auto simp: keep_head_def split: if_splits)

lemma generational_invariant:
  fixes Q :: "(tier \<Rightarrow> bucket) \<Rightarrow> BackupFile \<Rightarrow> bool"
  assumes mono: "\<And>bk T' k v x. Q bk x \<Longrightarrow> Q (bk(T' := bk T' @ [(k, v)])) x"
    and step: "\<And>bk x T. 0 < quota r T \<Longrightarrow> Q bk x \<Longrightarrow>
                 Q (bk(T := bk T @ [(bucket_key T (Time x), x\<lparr>Tags := Tags x @ [tag T]\<rparr>)]))
                   (x\<lparr>Tags := Tags x @ [tag T]\<rparr>)"
    and files: "\<forall>x\<in>all_files r. Q (\<lambda>_. []) x"
    and wf: "found_len r \<le> length (backing r)"
  shows "\<forall>x\<in>all_files (rot (generational r)). Q (buckets (generational r)) x"
  unfolding generational_def
  by (rule fold_body_invariant [where Q = Q, OF mono step]) (use files wf in simp_all)

text \<open>The maps never hold more keys than the quota allows.\<close>

lemma tier_step_bucket_length:
  assumes "\<forall>T'. int (length (buckets (snd bp) T')) \<le> max 0 (quota (rot (snd bp)) T')"
  shows "\<forall>T'. int (length (buckets (snd (tier_step T bp)) T')) \<le> max 0 (quota (rot (snd bp)) T')"
  using assms by (auto simp: tier_step_def Let_def qualifies_def)

lemma body_bucket_length:
  assumes "\<forall>T. int (length (buckets p T)) \<le> max 0 (quota (rot p) T)"
  shows "\<forall>T. int (length (buckets (body j p) T)) \<le> max 0 (quota (rot p) T)"
proof -
  define s0 where "s0 = (backing (rot p) ! j, p)"
  define s1 where "s1 = tier_step Daily s0"
  define s2 where "s2 = tier_step Weekly s1"
  define s3 where "s3 = tier_step Monthly s2"
  have q: "quota (rot (snd s0)) T = quota (rot p) T" "quota (rot (snd s1)) T = quota (rot p) T"
    "quota (rot (snd s2)) T = quota (rot p) T" "quota (rot (snd s3)) T = quota (rot p) T" for T
    by (simp_all add: s0_def s1_def s2_def s3_def)
  have "\<forall>T. int (length (buckets (snd s0) T)) \<le> max 0 (quota (rot p) T)"
    using assms by (simp add: s0_def)
  then have "\<forall>T. int (length (buckets (snd s1) T)) \<le> max 0 (quota (rot p) T)"
    unfolding s1_def using tier_step_bucket_length [of s0 Daily] by (simp add: q)
  then have "\<forall>T. int (length (buckets (snd s2) T)) \<le> max 0 (quota (rot p) T)"
    unfolding s2_def using tier_step_bucket_length [of s1 Weekly] by (simp add: q)
  then have "\<forall>T. int (length (buckets (snd s3) T)) \<le> max 0 (quota (rot p) T)"
    unfolding s3_def using tier_step_bucket_length [of s2 Monthly] by (simp add: q)
  then have "\<forall>T. int (length (buckets (snd (tier_step Yearly s3)) T)) \<le> max 0 (quota (rot p) T)"
    using tier_step_bucket_length [of s3 Yearly] by (simp add: q)
  then show ?thesis
    by (simp add: body_def s3_def s2_def s1_def s0_def)
qed

lemma fold_body_bucket_length:
  "\<forall>T. int (length (buckets p T)) \<le> max 0 (quota (rot p) T) \<Longrightarrow>
   \<forall>T. int (length (buckets (fold body js p) T)) \<le> max 0 (quota (rot p) T)"
proof (induction js arbitrary: p)
  case Nil
  then show ?case by simp
next
  case (Cons j js)
  from Cons.prems have "\<forall>T. int (length (buckets (body j p) T)) \<le> max 0 (quota (rot (body j p)) T)"
    using body_bucket_length [of p j] by simp
  from Cons.IH [OF this] show ?case by simp
qed

lemma generational_bucket_length:
  "int (length (buckets (generational r) T)) \<le> max 0 (quota r T)"
  using fold_body_bucket_length [of "\<lparr>rot = r, buckets = (\<lambda>_. [])\<rparr>" "[nat (Keep r) ..< found_len r]"]
  by (simp add: generational_def)

lemma generational_quota [simp]: "quota (rot (generational r)) T = quota r T"
  by (simp add: generational_def)

lemma found_shape [simp]:
  "found_len (found r c files) = length files"
  "length files \<le> length (backing (found r c files))"
  "set (backing (found r c files)) \<subseteq> insert zero_file (set files)"
  "quota (found r c files) T = quota r T"
  by (cases T; auto simp: found_def)+


lemma classify_Inr:
  assumes "classify r = Inr p"
  obtains r1 where "keep_head r = Inr r1" and "p = generational r1"
  using assms by (auto simp: classify_def split: sum.splits if_splits)

lemma classify_untagged:
  assumes cl: "classify (found r c files) = Inr p"
    and fresh: "\<forall>b\<in>set files. P b" and zero: "P zero_file"
    and keep: "\<And>x. P x \<Longrightarrow> P (x\<lparr>Tags := Tags x @ [''keep'']\<rparr>)"
  obtains r1 where "keep_head (found r c files) = Inr r1" and "p = generational r1"
    and "\<forall>x\<in>all_files r1. P x" and "found_len r1 \<le> length (backing r1)"
    and "\<And>T. quota r1 T = quota r T"
proof -
  from cl obtain r1 where kh: "keep_head (found r c files) = Inr r1" and p: "p = generational r1"
    by (rule classify_Inr)
  have "\<forall>x\<in>set (backing (found r c files)). P x"
    using fresh zero found_shape(3) [of r c files] by blast
  then have "\<forall>x\<in>all_files r1. P x"
    by (intro keep_head_invariant [OF kh] keep) simp_all
  moreover have "found_len r1 \<le> length (backing r1)"
    using keep_head_shape [OF kh] by simp
  moreover have "quota r1 T = quota r T" for T
    using keep_head_quota [OF kh, of T] by simp
  ultimately show thesis using kh p that by blast
qed

text \<open>
  C7. For each tier, the number of distinct bucket keys of that tier that the selection
  represents with the tier's tag never exceeds the tier's quota. A quota may be negative (the
  flags are plain integers); the number of keys is then 0, which exceeds it.
\<close>

theorem negative_quota_is_exceeded:
  "outcome (classify (found (policy False 0 (- 1) 0 0 0) 1 [file_A])) =
     Inr ([], [file_A], [[], [], [], []]) \<and>
   \<not> int (length (represented Daily [])) \<le> quota (policy False 0 (- 1) 0 0 0) Daily"
  by code_simp

text \<open>
  C7, as the code has it: for files that come from \<^verbatim>\<open>Read\<close> (no tags yet) and each tier, the
  number of distinct bucket keys that the selection represents with the tier's tag is at most
  the tier's quota, or 0 when the quota is negative.
\<close>

theorem represented_within_quota:
  assumes "\<forall>b\<in>set files. Tags b = []" and "classify (found r c files) = Inr p"
  shows "int (length (represented T (SelectedFiles (rot p)))) \<le> max 0 (quota r T)"
proof -
  define P :: "BackupFile \<Rightarrow> bool" where "P x \<longleftrightarrow> (\<forall>T. tag T \<notin> set (Tags x))" for x
  define Q :: "(tier \<Rightarrow> bucket) \<Rightarrow> BackupFile \<Rightarrow> bool"
    where "Q bk x \<longleftrightarrow> (\<forall>T. tag T \<in> set (Tags x) \<longrightarrow> bucket_key T (Time x) \<in> fst ` set (bk T))"
    for bk x
  have "\<forall>b\<in>set files. P b" using assms(1) by (simp add: P_def)
  moreover have "P zero_file" by (simp add: P_def zero_file_def)
  moreover have "P (x\<lparr>Tags := Tags x @ [''keep'']\<rparr>)" if "P x" for x
    using that by (simp add: P_def)
  ultimately obtain r1 where p: "p = generational r1"
    and files: "\<forall>x\<in>all_files r1. P x" and wf: "found_len r1 \<le> length (backing r1)"
    and q: "\<And>T. quota r1 T = quota r T"
    using classify_untagged [where P = P, OF assms(2)] by blast
  have "\<forall>x\<in>all_files (rot (generational r1)). Q (buckets (generational r1)) x"
  proof (rule generational_invariant [where Q = Q])
    show "Q (bk(T' := bk T' @ [(k, v)])) x" if "Q bk x" for bk T' k v x
      using that by (auto simp: Q_def)
    show "Q (bk(T := bk T @ [(bucket_key T (Time x), x\<lparr>Tags := Tags x @ [tag T]\<rparr>)]))
            (x\<lparr>Tags := Tags x @ [tag T]\<rparr>)" if "Q bk x" for bk x T
      using that by (auto simp: Q_def)
    show "\<forall>x\<in>all_files r1. Q (\<lambda>_. []) x"
      using files by (auto simp: P_def Q_def)
    show "found_len r1 \<le> length (backing r1)" by (rule wf)
  qed
  then have "set (represented T (SelectedFiles (rot p))) \<subseteq> fst ` set (buckets p T)"
    by (auto simp: represented_def p all_files_def Q_def)
  then have "card (set (represented T (SelectedFiles (rot p)))) \<le> card (fst ` set (buckets p T))"
    by (intro card_mono) simp_all
  also have "\<dots> \<le> length (buckets p T)"
    by (metis card_image_le card_length le_trans List.finite_set)
  finally have "length (represented T (SelectedFiles (rot p))) \<le> length (buckets p T)"
    by (simp add: represented_def length_remdups_card_conv)
  moreover have "int (length (buckets p T)) \<le> max 0 (quota r T)"
    using generational_bucket_length [of r1 T] by (simp add: p q)
  ultimately show ?thesis by linarith
qed

theorem represented_within_quota_witness:
  "Tags file_A = [] \<and> Tags file_B = [] \<and> Tags file_C = [] \<and>
   outcome (classify (found (policy False 0 1 1 0 0) 4 [file_A, file_B, file_C])) =
     Inr ([file_A\<lparr>Tags := [''daily'']\<rparr>, file_A\<lparr>Tags := [''daily'', ''weekly'']\<rparr>],
          [file_A\<lparr>Tags := [''daily'']\<rparr>, file_A\<lparr>Tags := [''daily'', ''weekly'']\<rparr>, file_C],
          [[(''2024-01-03'', file_A\<lparr>Tags := [''daily'']\<rparr>)],
           [(''2024-W01'', file_A\<lparr>Tags := [''daily'', ''weekly'']\<rparr>)], [], []]) \<and>
   int (length (represented Daily
          [file_A\<lparr>Tags := [''daily'']\<rparr>, file_A\<lparr>Tags := [''daily'', ''weekly'']\<rparr>])) \<le> 1"
proof -
  let ?r = "found (policy False 0 1 1 0 0) 4 [file_A, file_B, file_C]"
  have tags: "\<forall>b\<in>set [file_A, file_B, file_C]. Tags b = []"
    by (simp add: file_A_def file_B_def file_C_def backup_on_def)
  have out: "outcome (classify ?r) =
     Inr ([file_A\<lparr>Tags := [''daily'']\<rparr>, file_A\<lparr>Tags := [''daily'', ''weekly'']\<rparr>],
          [file_A\<lparr>Tags := [''daily'']\<rparr>, file_A\<lparr>Tags := [''daily'', ''weekly'']\<rparr>, file_C],
          [[(''2024-01-03'', file_A\<lparr>Tags := [''daily'']\<rparr>)],
           [(''2024-W01'', file_A\<lparr>Tags := [''daily'', ''weekly'']\<rparr>)], [], []])"
    by code_simp
  then obtain p where p: "classify ?r = Inr p"
    and sel: "SelectedFiles (rot p) =
      [file_A\<lparr>Tags := [''daily'']\<rparr>, file_A\<lparr>Tags := [''daily'', ''weekly'']\<rparr>]"
    by (cases "classify ?r") (auto simp: outcome_def)
  from represented_within_quota [OF tags p, of Daily] sel
  have "int (length (represented Daily
          [file_A\<lparr>Tags := [''daily'']\<rparr>, file_A\<lparr>Tags := [''daily'', ''weekly'']\<rparr>])) \<le> 1"
    by (simp add: policy_def)
  with tags out show ?thesis by simp
qed


lemma found_with_quota: "found (with_quota T q r) c files = with_quota T q (found r c files)"
  by (cases T) (simp_all add: found_def)

text \<open>
  C10. A tier whose quota is negative selects nothing, exactly as with a quota of 0: the test
  that the map holds fewer keys than the quota never succeeds, and the tier's tag is never
  assigned.
\<close>

theorem negative_quota_selects_nothing:
  assumes "quota r T < 0" and "\<forall>b\<in>set files. Tags b = []"
  shows "outcome (classify (found (with_quota T 0 r) c files)) = outcome (classify (found r c files)) \<and>
         (\<forall>p. classify (found r c files) = Inr p \<longrightarrow>
              buckets p T = [] \<and>
              (\<forall>b\<in>set (SelectedFiles (rot p)) \<union> set (FoundFiles (rot p)). tag T \<notin> set (Tags b)))"
proof (intro conjI allI impI)
  show "outcome (classify (found (with_quota T 0 r) c files)) = outcome (classify (found r c files))"
    using assms(1) by (simp add: found_with_quota outcome_with_quota)
next
  fix p assume cl: "classify (found r c files) = Inr p"
  define P :: "BackupFile \<Rightarrow> bool" where "P x \<longleftrightarrow> tag T \<notin> set (Tags x)" for x
  have "\<forall>b\<in>set files. P b" using assms(2) by (simp add: P_def)
  moreover have "P zero_file" by (simp add: P_def zero_file_def)
  moreover have "P (x\<lparr>Tags := Tags x @ [''keep'']\<rparr>)" if "P x" for x
    using that by (simp add: P_def)
  ultimately obtain r1 where p: "p = generational r1"
    and files: "\<forall>x\<in>all_files r1. P x" and wf: "found_len r1 \<le> length (backing r1)"
    and q: "\<And>T. quota r1 T = quota r T"
    using classify_untagged [where P = P, OF cl] by blast
  have "int (length (buckets p T)) \<le> max 0 (quota r T)"
    using generational_bucket_length [of r1 T] by (simp add: p q)
  with assms(1) show "buckets p T = []" by simp
  have "\<forall>x\<in>all_files (rot (generational r1)). P x"
  proof (rule generational_invariant [where Q = "\<lambda>_. P"])
    show "P (x\<lparr>Tags := Tags x @ [tag T']\<rparr>)" if "0 < quota r1 T'" "P x" for x T'
      using that assms(1) by (auto simp: P_def q)
  qed (use files wf in simp_all)
  moreover have "set (FoundFiles (rot p)) \<subseteq> all_files (rot p)"
    by (auto simp: FoundFiles_def all_files_def dest: in_set_takeD)
  ultimately show "\<forall>b\<in>set (SelectedFiles (rot p)) \<union> set (FoundFiles (rot p)). tag T \<notin> set (Tags b)"
    by (auto simp: p all_files_def P_def)
qed

theorem negative_quota_selects_nothing_witness:
  "quota (policy False 0 (- 1) 1 0 0) Daily < 0 \<and>
   Tags file_A = [] \<and> Tags file_B = [] \<and> Tags file_C = [] \<and>
   outcome (classify (found (policy False 0 0 1 0 0) 4 [file_A, file_B, file_C])) =
   outcome (classify (found (policy False 0 (- 1) 1 0 0) 4 [file_A, file_B, file_C])) \<and>
   outcome (classify (found (policy False 0 (- 1) 1 0 0) 4 [file_A, file_B, file_C])) =
     Inr ([file_A\<lparr>Tags := [''weekly'']\<rparr>], [file_A\<lparr>Tags := [''weekly'']\<rparr>, file_B, file_C],
          [[], [(''2024-W01'', file_A\<lparr>Tags := [''weekly'']\<rparr>)], [], []])"
proof -
  have neg: "quota (policy False 0 (- 1) 1 0 0) Daily < 0"
    by (simp add: policy_def)
  have tags: "\<forall>b\<in>set [file_A, file_B, file_C]. Tags b = []"
    by (simp add: file_A_def file_B_def file_C_def backup_on_def)
  have "with_quota Daily 0 (policy False 0 (- 1) 1 0 0) = policy False 0 0 1 0 0"
    by (simp add: policy_def)
  with negative_quota_selects_nothing [OF neg tags, of 4]
  have "outcome (classify (found (policy False 0 0 1 0 0) 4 [file_A, file_B, file_C])) =
        outcome (classify (found (policy False 0 (- 1) 1 0 0) 4 [file_A, file_B, file_C]))"
    by simp
  moreover have "outcome (classify (found (policy False 0 (- 1) 1 0 0) 4 [file_A, file_B, file_C])) =
     Inr ([file_A\<lparr>Tags := [''weekly'']\<rparr>], [file_A\<lparr>Tags := [''weekly'']\<rparr>, file_B, file_C],
          [[], [(''2024-W01'', file_A\<lparr>Tags := [''weekly'']\<rparr>)], [], []])"
    by code_simp
  ultimately show ?thesis using neg tags by simp
qed



section \<open>Errors of the file system\<close>




text \<open>\<^verbatim>\<open>Rotate\<close> prints the error that \<^verbatim>\<open>remove\<close> returns, after everything else.\<close>

lemma Rotate_prints_failed_removal:
  assumes "classify r = Inr p"
    and "remove (rot p) (fst (link (rot p) (fst (clear r fs)))) = (fs3, out, Some e)"
  shows "snd (snd (Rotate r fs)) =
           report ErrorLinking (snd (link (rot p) (fst (clear r fs)))) @ out @ [ErrorRemoving e]"
proof -
  obtain fs2 le where l: "link (rot p) (fst (clear r fs)) = (fs2, le)"
    by (cases "link (rot p) (fst (clear r fs))")
  with assms show ?thesis
    by (simp add: Rotate_def report_def)
qed

text \<open>
  C4. When clearing the destination fails, the run is fatal: nothing is linked and nothing is
  pruned afterwards. In the code \<^verbatim>\<open>Rotate\<close> calls \<^verbatim>\<open>r.clear()\<close> and drops its result:
  with a destination that cannot be listed, the stale link stays, the kept file is linked
  and both unselected files are deleted.
\<close>

theorem failed_clear_is_ignored:
  "clear (found (policy False 1 0 0 0 0) 4 [file_A, file_B, file_C]) unlistable =
     (unlistable, Some (ReadDirError ''/links/'')) \<and>
   snd (Rotate (found (policy False 1 0 0 0 0) 4 [file_A, file_B, file_C]) unlistable) =
     (unlistable\<lparr>entries := [(''/backup/2024-01-03T12-00-00.sql.gz'', File),
                              (''/links/keep-2023-12-31T12-00-00.sql.gz'',
                               Symlink ''/backup/2023-12-31T12-00-00.sql.gz''),
                              (''/links/keep-2024-01-03T12-00-00.sql.gz'',
                               Symlink ''/backup/2024-01-03T12-00-00.sql.gz'')]\<rparr>, [])"
  by code_simp


lemma clear_loop_failure:
  "clear_loop d ns fs = (fs1, Some e) \<Longrightarrow>
   \<exists>gone n rest. ns = gone @ n # rest \<and> clear_loop d gone fs = (fs1, None) \<and>
                  os_Remove fs1 (d @ n) = Inl e"
proof (induction ns arbitrary: fs)
  case Nil
  then show ?case by simp
next
  case (Cons m ms)
  show ?case
  proof (cases "os_Remove fs (d @ m)")
    case (Inl e')
    with Cons.prems have "fs1 = fs" "e' = e" by simp_all
    with Inl have "m # ms = [] @ m # ms \<and> clear_loop d [] fs = (fs1, None) \<and>
        os_Remove fs1 (d @ m) = Inl e"
      by simp
    then show ?thesis by blast
  next
    case (Inr fs')
    with Cons.prems have "clear_loop d ms fs' = (fs1, Some e)" by simp
    from Cons.IH [OF this] obtain gone n rest where "ms = gone @ n # rest"
      and "clear_loop d gone fs' = (fs1, None)" and "os_Remove fs1 (d @ n) = Inl e"
      by blast
    with Inr have "m # ms = (m # gone) @ n # rest \<and> clear_loop d (m # gone) fs = (fs1, None) \<and>
        os_Remove fs1 (d @ n) = Inl e"
      by simp
    then show ?thesis by blast
  qed
qed

text \<open>
  C4, as the code has it: a failure of \<^verbatim>\<open>clear\<close> is not fatal. \<^verbatim>\<open>clear\<close> stops where it
  fails (at the listing, or at the first entry that cannot be removed, with the entries after
  it left in place) and returns the error; \<^verbatim>\<open>Rotate\<close> goes on and, unless the slicing
  panics, links and prunes on the file system as \<^verbatim>\<open>clear\<close> left it.
\<close>

theorem rotate_goes_on_after_failed_clear:
  assumes "clear r fs = (fs1, Some e)" and "classify r = Inr p"
  shows "((os_ReadDir fs (DestinationDir r) = Inl e \<and> fs1 = fs) \<or>
          (\<exists>gone n rest. os_ReadDir fs (DestinationDir r) = Inr (gone @ n # rest) \<and>
             clear_loop (DestinationDir r) gone fs = (fs1, None) \<and>
             os_Remove fs1 (DestinationDir r @ n) = Inl e)) \<and>
         Rotate r fs =
           (Inr (rot p),
            fst (remove (rot p) (fst (link (rot p) fs1))),
            report ErrorLinking (snd (link (rot p) fs1))
            @ fst (snd (remove (rot p) (fst (link (rot p) fs1))))
            @ report ErrorRemoving (snd (snd (remove (rot p) (fst (link (rot p) fs1))))))"
proof
  show "(os_ReadDir fs (DestinationDir r) = Inl e \<and> fs1 = fs) \<or>
          (\<exists>gone n rest. os_ReadDir fs (DestinationDir r) = Inr (gone @ n # rest) \<and>
             clear_loop (DestinationDir r) gone fs = (fs1, None) \<and>
             os_Remove fs1 (DestinationDir r @ n) = Inl e)"
  proof (cases "os_ReadDir fs (DestinationDir r)")
    case (Inl e')
    with assms(1) show ?thesis by (simp add: clear_def)
  next
    case (Inr ns)
    with assms(1) have "clear_loop (DestinationDir r) ns fs = (fs1, Some e)"
      by (simp add: clear_def)
    from clear_loop_failure [OF this] Inr show ?thesis by auto
  qed
  show "Rotate r fs =
           (Inr (rot p),
            fst (remove (rot p) (fst (link (rot p) fs1))),
            report ErrorLinking (snd (link (rot p) fs1))
            @ fst (snd (remove (rot p) (fst (link (rot p) fs1))))
            @ report ErrorRemoving (snd (snd (remove (rot p) (fst (link (rot p) fs1))))))"
    using assms by (simp add: Rotate_def split: prod.splits)
qed

theorem rotate_goes_on_after_failed_clear_witness:
  "clear (found (policy False 1 0 0 0 0) 4 [file_A, file_B, file_C]) unlistable =
     (unlistable, Some (ReadDirError ''/links/'')) \<and>
   os_ReadDir unlistable ''/links/'' = Inl (ReadDirError ''/links/'') \<and>
   (\<exists>p. classify (found (policy False 1 0 0 0 0) 4 [file_A, file_B, file_C]) = Inr p \<and>
        Rotate (found (policy False 1 0 0 0 0) 4 [file_A, file_B, file_C]) unlistable =
          (Inr (rot p),
           fst (remove (rot p) (fst (link (rot p) unlistable))),
           report ErrorLinking (snd (link (rot p) unlistable))
           @ fst (snd (remove (rot p) (fst (link (rot p) unlistable))))
           @ report ErrorRemoving (snd (snd (remove (rot p) (fst (link (rot p) unlistable))))))) \<and>
   map_of (entries (fst (snd (Rotate (found (policy False 1 0 0 0 0) 4 [file_A, file_B, file_C])
                                unlistable))))
     ''/links/keep-2024-01-03T12-00-00.sql.gz'' = Some (Symlink ''/backup/2024-01-03T12-00-00.sql.gz'')"
proof -
  let ?r = "found (policy False 1 0 0 0 0) 4 [file_A, file_B, file_C]"
  have c: "clear ?r unlistable = (unlistable, Some (ReadDirError ''/links/''))"
    by code_simp
  have d: "os_ReadDir unlistable ''/links/'' = Inl (ReadDirError ''/links/'')"
    by code_simp
  have "isl (outcome (classify ?r)) = False"
    by code_simp
  then obtain p where p: "classify ?r = Inr p"
    by (cases "classify ?r") (simp_all add: outcome_def)
  have l: "map_of (entries (fst (snd (Rotate ?r unlistable))))
     ''/links/keep-2024-01-03T12-00-00.sql.gz'' = Some (Symlink ''/backup/2024-01-03T12-00-00.sql.gz'')"
    by code_simp
  from rotate_goes_on_after_failed_clear [OF c p] c d p l show ?thesis by blast
qed

section \<open>A dry run\<close>

subsection \<open>Paths and directories\<close>

lemma clean_dir_spellings:
  "clean_dir ''/backup/'' = ''/backup/''"
  "clean_dir ''/backup//'' = ''/backup/''"
  "clean_dir ''/backup'' = ''/backup/''"
  "clean_dir ''//backup/./'' = ''/backup/''"
  "clean_dir ''/backup/../backup/'' = ''/backup/''"
  "clean_dir ''/links/../backup/x/..'' = ''/backup/''"
  "clean_dir ''/../'' = ''/''"
  "clean_dir ''backup/..'' = ''./''"
  "clean_dir ''../backup//'' = ''../backup/''"
  by code_simp+

lemma resolve_alias:
  "resolve (single\<lparr>aliases := [(''/links/'', ''/backup/'')]\<rparr>) ''/links//'' = ''/backup/''"
  "resolve (single\<lparr>aliases := [(''/links/'', ''/backup/'')]\<rparr>) ''/backup/'' = ''/backup/''"
  "resolve single ''/links//'' = ''/links/''"
  by code_simp+

lemma os_Remove_respelled:
  "os_Remove single ''/backup//2024-01-03T12-00-00.sql.gz'' = Inr (single\<lparr>entries := []\<rparr>)"
  "os_Remove single ''/backup/./../backup/2024-01-03T12-00-00.sql.gz'' =
     Inr (single\<lparr>entries := []\<rparr>)"
  by code_simp+

lemma concat_slash_last:
  "cs \<noteq> [] \<Longrightarrow> ends_with_slash (concat (map (\<lambda>c. c @ ''/'') cs))"
  by (cases cs rule: rev_cases) (simp_all add: ends_with_slash_def)

lemma ends_with_slash_clean_dir [simp]: "ends_with_slash (clean_dir d)"
proof -
  have "ends_with_slash (''/'' @ concat (map (\<lambda>c. c @ ''/'') cs))" for cs :: "string list"
    using concat_slash_last [of cs] by (cases "cs = []") (simp_all add: ends_with_slash_def)
  then show ?thesis
    using concat_slash_last
    by (auto simp: clean_dir_def Let_def ends_with_slash_def)
qed

lemma ends_with_slash_resolve [simp]: "ends_with_slash (resolve fs d)"
  by (simp add: resolve_def split: option.splits)









subsection \<open>Calls that leave a directory alone\<close>












subsection \<open>What reads the flag\<close>

lemma quota_Dry_update [simp]: "quota (r\<lparr>Dry := d\<rparr>) T = quota r T"
  by (cases T) simp_all

lemma SelectedFiles_Dry_update [simp]: "SelectedFiles (r\<lparr>Dry := d\<rparr>) = SelectedFiles r"
  by (simp add: SelectedFiles_def split: selection.splits)

lemma FoundFiles_Dry_update [simp]: "FoundFiles (r\<lparr>Dry := d\<rparr>) = FoundFiles r"
  by (simp add: FoundFiles_def)




lemma with_dry_simps [simp]:
  "buckets (with_dry d p) = buckets p"
  "rot (with_dry d p) = (rot p)\<lparr>Dry := d\<rparr>"
  by (simp_all add: with_dry_def)
















subsection \<open>The claim\<close>

lemma tier_step_dirs [simp]:
  "Dry (rot (snd (tier_step T bp))) = Dry (rot (snd bp))"
  "SourceDir (rot (snd (tier_step T bp))) = SourceDir (rot (snd bp))"
  "DestinationDir (rot (snd (tier_step T bp))) = DestinationDir (rot (snd bp))"
  by (simp_all add: tier_step_def Let_def)

lemma body_dirs [simp]:
  "Dry (rot (body j p)) = Dry (rot p)"
  "SourceDir (rot (body j p)) = SourceDir (rot p)"
  "DestinationDir (rot (body j p)) = DestinationDir (rot p)"
  by (simp_all add: body_def)

lemma fold_body_dirs [simp]:
  "Dry (rot (fold body js p)) = Dry (rot p)"
  "SourceDir (rot (fold body js p)) = SourceDir (rot p)"
  "DestinationDir (rot (fold body js p)) = DestinationDir (rot p)"
  by (induction js arbitrary: p; simp)+

lemma generational_dirs [simp]:
  "Dry (rot (generational r)) = Dry r"
  "SourceDir (rot (generational r)) = SourceDir r"
  "DestinationDir (rot (generational r)) = DestinationDir r"
  by (simp_all add: generational_def)

lemma found_dirs [simp]:
  "Dry (found r c files) = Dry r"
  "SourceDir (found r c files) = SourceDir r"
  "DestinationDir (found r c files) = DestinationDir r"
  by (simp_all add: found_def)

lemma tag_no_slash [simp]: "CHR ''/'' \<notin> set (tag T)"
  by (cases T) simp_all




text \<open>
  The same happens when the destination is the source directory under another spelling, as
  with \<^verbatim>\<open>--destination /backup//\<close>, which \<^verbatim>\<open>main\<close> passes on as it is.
\<close>

lemma dry_run_clears_respelled_directory:
  "Dry respelled_directory \<and> SourceDir respelled_directory = ''/backup/'' \<and>
   DestinationDir respelled_directory = ''/backup//'' \<and>
   resolve single ''/backup//'' = resolve single ''/backup/'' \<and>
   os_ReadDir single ''/backup//'' = Inr [''2024-01-03T12-00-00.sql.gz''] \<and>
   dir_names (fst (snd (Rotate (found respelled_directory 1 [file_A]) single))) ''/backup/'' =
     [''keep-2024-01-03T12-00-00.sql.gz'']"
  by code_simp




section \<open>A file that the loop meets again\<close>

text \<open>
  When an append has overwritten an element that the loop has still to read, the loop finds a
  copy of a file that it has dealt with. Such a copy passes no test: for each tier its key is
  in the map by now, or the test failed before and fails again, since the maps only grow. So
  nothing is ever appended to a tag slice that has been stored, which is why \<^verbatim>\<open>Tags\<close> can
  be a list value.
\<close>

lemma tier_step_refusal_stays:
  assumes "\<not> qualifies T x (snd bp)"
  shows "\<not> qualifies T x (snd (tier_step T' bp))"
proof (cases "T' = T \<and> qualifies T (fst bp) (snd bp)")
  case True
  with assms show ?thesis
    by (auto simp: tier_step_def Let_def qualifies_def split: option.splits)
next
  case False
  show ?thesis
  proof (cases "qualifies T' (fst bp) (snd bp)")
    case True
    with False have "T' \<noteq> T" by blast
    then have "qualifies T x (snd (tier_step T' bp)) = qualifies T x (snd bp)"
      by (intro qualifies_cong) simp_all
    with assms show ?thesis by simp
  next
    case no: False
    then have "tier_step T' bp = bp" by (simp add: tier_step_def)
    with assms show ?thesis by simp
  qed
qed

lemma tier_step_settles:
  assumes "Time x = Time (fst bp)"
  shows "\<not> qualifies T x (snd (tier_step T bp))"
proof (cases "qualifies T (fst bp) (snd bp)")
  case True
  with assms show ?thesis
    by (simp add: tier_step_def Let_def qualifies_def split: option.splits)
next
  case False
  then have "tier_step T bp = bp" by (simp add: tier_step_def)
  moreover have "qualifies T x (snd bp) = qualifies T (fst bp) (snd bp)"
    using assms by (intro qualifies_cong) simp_all
  ultimately show ?thesis using False by simp
qed

lemma body_refusal_stays:
  "\<not> qualifies T x p \<Longrightarrow> \<not> qualifies T x (body j p)"
  by (simp add: body_def tier_step_refusal_stays)

lemma body_settles:
  assumes "Time x = Time (backing (rot p) ! j)"
  shows "\<not> qualifies T x (body j p)"
proof -
  define s0 where "s0 = (backing (rot p) ! j, p)"
  define s1 where "s1 = tier_step Daily s0"
  define s2 where "s2 = tier_step Weekly s1"
  define s3 where "s3 = tier_step Monthly s2"
  define s4 where "s4 = tier_step Yearly s3"
  have t: "Time x = Time (fst s0)" "Time x = Time (fst s1)" "Time x = Time (fst s2)"
    "Time x = Time (fst s3)"
    using assms by (simp_all add: s0_def s1_def s2_def s3_def)
  have "\<not> qualifies T x (snd s4)"
  proof (cases T)
    case Daily
    have "\<not> qualifies Daily x (snd s1)" unfolding s1_def by (rule tier_step_settles [OF t(1)])
    then show ?thesis unfolding Daily s4_def s3_def s2_def
      by (intro tier_step_refusal_stays)
  next
    case Weekly
    have "\<not> qualifies Weekly x (snd s2)" unfolding s2_def by (rule tier_step_settles [OF t(2)])
    then show ?thesis unfolding Weekly s4_def s3_def
      by (intro tier_step_refusal_stays)
  next
    case Monthly
    have "\<not> qualifies Monthly x (snd s3)" unfolding s3_def by (rule tier_step_settles [OF t(3)])
    then show ?thesis unfolding Monthly s4_def
      by (intro tier_step_refusal_stays)
  next
    case Yearly
    show ?thesis unfolding Yearly s4_def by (rule tier_step_settles [OF t(4)])
  qed
  then show ?thesis
    by (simp add: body_def s4_def s3_def s2_def s1_def s0_def)
qed

lemma fold_body_refusal_stays:
  "\<not> qualifies T x p \<Longrightarrow> \<not> qualifies T x (fold body js p)"
  by (induction js arbitrary: p) (simp_all add: body_refusal_stays)

lemma body_leaves_refused_file:
  assumes "\<forall>T. \<not> qualifies T (backing (rot p) ! j) p"
  shows "body j p = p"
  using assms by (simp add: body_def tier_step_def)


end
